theory Spec2Isabelle
  imports Complex_Main "HOL-Library.AList" "HOL-Library.Sublist"
begin

section \<open>The agent group of pycityagent/simulation/agentgroup.py\<close>

text \<open>
  The class \<^verbatim>\<open>AgentGroup\<close> owns a list of agents, binds them to a simulator and to
  a message broker (\<^verbatim>\<open>init_agents\<close>), routes broker messages to them
  (\<^verbatim>\<open>message_dispatch\<close>), advances them step by step (\<^verbatim>\<open>step\<close>,
  \<^verbatim>\<open>run\<close>) and appends their status to Avro files (\<^verbatim>\<open>save_status\<close>).

  The embedding is state passing. Everything the group does to its collaborators (the
  agents, the messager, the event loop, the file system) is recorded, in order, in a trace
  of events kept in the group state. What a collaborator answers is data of the model: each
  agent and the messager carry the outcome of their calls (returns or raises), the same at
  every call; \<^verbatim>\<open>memory.get(key)\<close> is a lookup that raises KeyError for a missing key.
  An exception is a value \<open>Inl e\<close>; the state reached when it was raised is returned
  with it. The two loops without a bound, of \<^verbatim>\<open>message_dispatch\<close> and of \<^verbatim>\<open>run\<close>,
  recurse over the list of what the broker and the simulator answer, cycle after cycle;
  a loop that has not ended when the list is used up is still running.

  Logging is not modelled. Calls whose outcome no field records (the simulator's getters,
  \<^verbatim>\<open>fetch_messages\<close>, \<^verbatim>\<open>open\<close>, \<^verbatim>\<open>fastavro.writer\<close>) are taken to return.
\<close>

subsection \<open>Python values and exceptions\<close>

datatype pyval =
    VNone
  | VBool bool
  | VInt int
  | VFloat real
  | VStr string
  | VList "pyval list"
  | VDict "(string \<times> pyval) list"

type_synonym pydict = "(string \<times> pyval) list"

datatype error =
    IndexError
  | KeyError string
  | TypeError
  | ValueError
  | UnicodeDecodeError
  | JSONDecodeError
  | BindFailed string
  | ConnectFailed
  | ListenFailed
  | SubscribeFailed string
  | RunFailed string
  | HandlerFailed string

text \<open>Sequencing of a call that may raise with what follows it.\<close>

definition bind_err :: "error + 'a \<Rightarrow> ('a \<Rightarrow> error + 'b) \<Rightarrow> error + 'b" where
  "bind_err r f = (case r of Inl e \<Rightarrow> Inl e | Inr v \<Rightarrow> f v)"

definition and_then :: "(error + unit) \<times> 's \<Rightarrow> ('s \<Rightarrow> (error + unit) \<times> 's) \<Rightarrow> (error + unit) \<times> 's" where
  "and_then r f = (case r of (Inl e, s) \<Rightarrow> (Inl e, s) | (Inr _, s) \<Rightarrow> f s)"

text \<open>\<^verbatim>\<open>v[k]\<close> for a string key: only a dict can be subscripted by a string.\<close>

fun subscript :: "pyval \<Rightarrow> string \<Rightarrow> error + pyval" where
  "subscript (VDict d) k = (case map_of d k of None \<Rightarrow> Inl (KeyError k) | Some v \<Rightarrow> Inr v)"
| "subscript _ k = Inl TypeError"

text \<open>\<^verbatim>\<open>k in v\<close> for a string \<open>k\<close>: key membership in a dict, element membership in a list,
  substring test in a string, TypeError otherwise.\<close>

fun contains :: "string \<Rightarrow> pyval \<Rightarrow> error + bool" where
  "contains k (VDict d) = Inr (map_of d k \<noteq> None)"
| "contains k (VList xs) = Inr (VStr k \<in> set xs)"
| "contains k (VStr s) = Inr (sublist k s)"
| "contains k _ = Inl TypeError"

text \<open>\<^verbatim>\<open>s.strip(c)\<close> and \<^verbatim>\<open>s.split(c)\<close> for a one-character \<open>c\<close>.\<close>

definition strip :: "char \<Rightarrow> string \<Rightarrow> string" where
  "strip c s = rev (dropWhile (\<lambda>x. x = c) (rev (dropWhile (\<lambda>x. x = c) s)))"

fun split :: "char \<Rightarrow> string \<Rightarrow> string list" where
  "split c [] = [[]]"
| "split c (x # xs) =
     (if x = c then [] # split c xs
      else (case split c xs of [] \<Rightarrow> [[x]] | w # ws \<Rightarrow> (x # w) # ws))"

subsection \<open>Collaborators\<close>

datatype handler = AgentChat | UserChat | UserSurvey | Gather

text \<open>
  An agent, as far as the group looks at it: \<^verbatim>\<open>agent._uuid\<close>, whether its class is a
  subclass of \<^verbatim>\<open>InstitutionAgent\<close>, whether \<^verbatim>\<open>bind_to_simulator()\<close>, \<^verbatim>\<open>run()\<close>
  and the four message handlers return or raise, what \<^verbatim>\<open>memory.get(key)\<close> holds, and
  what \<^verbatim>\<open>memory._profile.export()\<close> returns (a sequence of dicts).
\<close>

record Agent =
  uuid :: string
  institution :: bool
  bind_ok :: bool
  run_ok :: bool
  handler_ok :: "handler \<Rightarrow> bool"
  memory :: pydict
  profile_export :: "pydict list"

text \<open>The messager: whether \<^verbatim>\<open>connect()\<close> returns, what \<^verbatim>\<open>is_connected()\<close> answers,
  whether \<^verbatim>\<open>start_listening()\<close> and \<^verbatim>\<open>subscribe(topic, agent)\<close> return.\<close>

record Messager =
  connect_ok :: bool
  is_connected :: bool
  listen_ok :: bool
  subscribe_ok :: "string \<Rightarrow> bool"

text \<open>The simulator's \<^verbatim>\<open>get_simulator_day()\<close> and
  \<^verbatim>\<open>get_simulator_second_from_start_of_day()\<close>.\<close>

record Simulator =
  get_simulator_day :: int
  get_simulator_second_from_start_of_day :: int

datatype Payload = Bytes string | Structured pyval

record Message =
  topic :: string
  payload :: Payload

subsection \<open>Events and the group state\<close>

datatype mode = WB | AB

datatype schema =
  PROFILE_SCHEMA | DIALOG_SCHEMA | STATUS_SCHEMA | INSTITUTION_STATUS_SCHEMA | SURVEY_SCHEMA

text \<open>
  One event per call on a collaborator: \<open>Subscribe topic agent\<close> is
  \<^verbatim>\<open>messager.subscribe(topic, agent)\<close>, \<open>CreateDispatchTask\<close> is
  \<^verbatim>\<open>asyncio.create_task(self.message_dispatch())\<close>, \<open>OpenFile key mode\<close> opens
  \<^verbatim>\<open>self.avro_file[key]\<close>, \<open>AvroWriter key schema records snappy\<close> is
  \<^verbatim>\<open>fastavro.writer\<close> on that file, \<open>Handle h agent payload\<close> is the call of a message
  handler of the agent, \<open>Sleep\<close> is \<^verbatim>\<open>asyncio.sleep(0.5)\<close>.
\<close>

datatype event =
    BindToSimulator string
  | Connect
  | StartListening
  | SetMessager string
  | Subscribe string string
  | CreateDispatchTask
  | OpenFile string mode
  | AvroWriter string schema "pydict list" bool
  | AgentRun string
  | Handle handler string pyval
  | Sleep

record AgentGroup =
  agents :: "Agent list"
  exp_id :: string
  enable_avro :: bool
  messager :: Messager
  simulator :: Simulator
  initialized :: bool
  id2agent :: "string \<rightharpoonup> Agent"
  now_ms :: int
  events :: "event list"

definition emit :: "event list \<Rightarrow> AgentGroup \<Rightarrow> AgentGroup" where
  "emit es g = g\<lparr>events := events g @ es\<rparr>"

subsection \<open>init_agents\<close>

fun bind_agents :: "Agent list \<Rightarrow> event list \<Rightarrow> (error + unit) \<times> event list" where
  "bind_agents [] tr = (Inr (), tr)"
| "bind_agents (a # as) tr =
     (if bind_ok a then bind_agents as (tr @ [BindToSimulator (uuid a)])
      else (Inl (BindFailed (uuid a)), tr @ [BindToSimulator (uuid a)]))"

text \<open>\<^verbatim>\<open>{agent._uuid: agent for agent in self.agents}\<close>: a later agent replaces an
  earlier one with the same id.\<close>

definition build_id2agent :: "Agent list \<Rightarrow> (string \<rightharpoonup> Agent)" where
  "build_id2agent as = foldl (\<lambda>m a. m(uuid a \<mapsto> a)) Map.empty as"

definition agent_topics :: "string \<Rightarrow> string \<Rightarrow> string list" where
  "agent_topics e a =
     [''exps/'' @ e @ ''/agents/'' @ a @ ''/agent-chat'',
      ''exps/'' @ e @ ''/agents/'' @ a @ ''/user-chat'',
      ''exps/'' @ e @ ''/agents/'' @ a @ ''/user-survey'',
      ''exps/'' @ e @ ''/agents/'' @ a @ ''/gather'']"

fun subscribe_topics :: "Messager \<Rightarrow> string \<Rightarrow> string list \<Rightarrow> event list \<Rightarrow> (error + unit) \<times> event list" where
  "subscribe_topics m a [] tr = (Inr (), tr)"
| "subscribe_topics m a (t # ts) tr =
     (if subscribe_ok m t then subscribe_topics m a ts (tr @ [Subscribe t a])
      else (Inl (SubscribeFailed t), tr @ [Subscribe t a]))"

fun subscribe_agents :: "Messager \<Rightarrow> string \<Rightarrow> Agent list \<Rightarrow> event list \<Rightarrow> (error + unit) \<times> event list" where
  "subscribe_agents m e [] tr = (Inr (), tr)"
| "subscribe_agents m e (a # as) tr =
     (case subscribe_topics m (uuid a) (agent_topics e (uuid a)) (tr @ [SetMessager (uuid a)]) of
        (Inl err, tr') \<Rightarrow> (Inl err, tr')
      | (Inr _, tr') \<Rightarrow> subscribe_agents m e as tr')"

text \<open>Lines 83 to 95: connect, and when connected, listen and subscribe.\<close>

definition bind_messager :: "AgentGroup \<Rightarrow> (error + unit) \<times> AgentGroup" where
  "bind_messager g =
     (let g1 = emit [Connect] g in
      if \<not> connect_ok (messager g) then (Inl ConnectFailed, g1)
      else if is_connected (messager g) then
        (let g2 = emit [StartListening] g1 in
         if \<not> listen_ok (messager g) then (Inl ListenFailed, g2)
         else (case subscribe_agents (messager g) (exp_id g) (agents g) (events g2) of
                 (r, tr) \<Rightarrow> (r, g2\<lparr>events := tr\<rparr>)))
      else (Inr (), g1))"

fun export_profiles :: "Agent list \<Rightarrow> pydict list \<Rightarrow> error + pydict list" where
  "export_profiles [] profiles = Inr profiles"
| "export_profiles (a # as) profiles =
     (case profile_export a of
        [] \<Rightarrow> Inl IndexError
      | profile # _ \<Rightarrow>
          export_profiles as (profiles @ [AList.update ''id'' (VStr (uuid a)) profile]))"

text \<open>Lines 99 to 109: the profile file, written unless \<^verbatim>\<open>self.agents[0]\<close> is an
  institution. The file is opened before the profiles are exported.\<close>

definition write_profile :: "AgentGroup \<Rightarrow> (error + unit) \<times> AgentGroup" where
  "write_profile g =
     (case agents g of
        [] \<Rightarrow> (Inl IndexError, g)
      | a0 # _ \<Rightarrow>
          if \<not> institution a0 then
            (let g1 = emit [OpenFile ''profile'' WB] g in
             case export_profiles (agents g) [] of
               Inl e \<Rightarrow> (Inl e, g1)
             | Inr profiles \<Rightarrow>
                 (Inr (), emit [AvroWriter ''profile'' PROFILE_SCHEMA profiles False] g1))
          else (Inr (), g))"

text \<open>Lines 111 to 130: the dialog, status and survey files, created empty.\<close>

definition write_headers :: "AgentGroup \<Rightarrow> (error + unit) \<times> AgentGroup" where
  "write_headers g =
     (let g1 = emit [OpenFile ''dialog'' WB, AvroWriter ''dialog'' DIALOG_SCHEMA [] False,
                     OpenFile ''status'' WB] g in
      case agents g of
        [] \<Rightarrow> (Inl IndexError, g1)
      | a0 # _ \<Rightarrow>
          (Inr (),
           emit [AvroWriter ''status''
                   (if \<not> institution a0 then STATUS_SCHEMA else INSTITUTION_STATUS_SCHEMA) [] False,
                 OpenFile ''survey'' WB, AvroWriter ''survey'' SURVEY_SCHEMA [] False] g1))"

definition create_avro_files :: "AgentGroup \<Rightarrow> (error + unit) \<times> AgentGroup" where
  "create_avro_files g =
     (if enable_avro g then and_then (write_profile g) write_headers else (Inr (), g))"

definition init_agents :: "AgentGroup \<Rightarrow> (error + unit) \<times> AgentGroup" where
  "init_agents g =
     (case bind_agents (agents g) (events g) of
        (Inl e, tr) \<Rightarrow> (Inl e, g\<lparr>events := tr\<rparr>)
      | (Inr _, tr) \<Rightarrow>
          and_then (bind_messager (g\<lparr>events := tr, id2agent := build_id2agent (agents g)\<rparr>))
            (\<lambda>g. and_then (create_avro_files (emit [CreateDispatchTask] g))
              (\<lambda>g. (Inr (), g\<lparr>initialized := True\<rparr>))))"

subsection \<open>message_dispatch\<close>

text \<open>
  \<open>loads\<close> stands for \<^verbatim>\<open>json.loads(payload.decode("utf-8"))\<close>, a library function: it
  returns the structured record or raises.
\<close>

definition decode_payload :: "(string \<Rightarrow> error + pyval) \<Rightarrow> Payload \<Rightarrow> error + pyval" where
  "decode_payload loads p = (case p of Bytes b \<Rightarrow> loads b | Structured v \<Rightarrow> Inr v)"

text \<open>The \<^verbatim>\<open>if\<close>/\<^verbatim>\<open>elif\<close> chain on \<^verbatim>\<open>topic_type\<close>; no branch for any other string.\<close>

definition handler_of :: "string \<Rightarrow> handler option" where
  "handler_of topic_type =
     (if topic_type = ''agent-chat'' then Some AgentChat
      else if topic_type = ''user-chat'' then Some UserChat
      else if topic_type = ''user-survey'' then Some UserSurvey
      else if topic_type = ''gather'' then Some Gather
      else None)"

text \<open>The body of the \<^verbatim>\<open>for message in messages\<close> loop. Unpacking the split topic into five
  names raises ValueError for any other number of components.\<close>

definition dispatch_message ::
  "(string \<Rightarrow> error + pyval) \<Rightarrow> AgentGroup \<Rightarrow> Message \<Rightarrow> event list \<Rightarrow> (error + unit) \<times> event list" where
  "dispatch_message loads g message tr =
     (case decode_payload loads (payload message) of
        Inl e \<Rightarrow> (Inl e, tr)
      | Inr p \<Rightarrow>
          (case split CHR ''/'' (strip CHR ''/'' (topic message)) of
             [_, _, _, agent_uuid, topic_type] \<Rightarrow>
               (case id2agent g agent_uuid of
                  None \<Rightarrow> (Inr (), tr)
                | Some agent \<Rightarrow>
                    (case handler_of topic_type of
                       None \<Rightarrow> (Inr (), tr)
                     | Some h \<Rightarrow>
                         (if handler_ok agent h then Inr () else Inl (HandlerFailed (uuid agent)),
                          tr @ [Handle h (uuid agent) p])))
           | _ \<Rightarrow> (Inl ValueError, tr)))"

fun dispatch_messages ::
  "(string \<Rightarrow> error + pyval) \<Rightarrow> AgentGroup \<Rightarrow> Message list \<Rightarrow> event list \<Rightarrow> (error + unit) \<times> event list" where
  "dispatch_messages loads g [] tr = (Inr (), tr)"
| "dispatch_messages loads g (message # messages) tr =
     (case dispatch_message loads g message tr of
        (Inl e, tr') \<Rightarrow> (Inl e, tr')
      | (Inr _, tr') \<Rightarrow> dispatch_messages loads g messages tr')"

text \<open>
  How a loop of the source ends: it returned, it raised, or it is still running when the
  observations given to the model are used up.
\<close>

datatype outcome = Returned | Raised error | Running

text \<open>
  The \<^verbatim>\<open>while True\<close> loop of \<^verbatim>\<open>message_dispatch\<close>. The list holds what the successive
  calls of \<^verbatim>\<open>fetch_messages()\<close> return, one batch per cycle; the loop has no exit, so
  it ends by an exception or is still running after the last batch given.
\<close>

fun message_dispatch ::
  "(string \<Rightarrow> error + pyval) \<Rightarrow> AgentGroup \<Rightarrow> Message list list \<Rightarrow> event list \<Rightarrow> outcome \<times> event list" where
  "message_dispatch loads g [] tr = (Running, tr)"
| "message_dispatch loads g (messages # fetched) tr =
     (case dispatch_messages loads g messages tr of
        (Inl e, tr') \<Rightarrow> (Raised e, tr')
      | (Inr _, tr') \<Rightarrow> message_dispatch loads g fetched (tr' @ [Sleep]))"

subsection \<open>save_status\<close>

definition memory_get :: "Agent \<Rightarrow> string \<Rightarrow> error + pyval" where
  "memory_get a k = (case map_of (memory a) k of None \<Rightarrow> Inl (KeyError k) | Some v \<Rightarrow> Inr v)"

text \<open>Lines 192 to 198: the id of the area of interest, else of the lane, else -1.\<close>

definition status_parent_id :: "pyval \<Rightarrow> error + pyval" where
  "status_parent_id position =
     bind_err (contains ''aoi_position'' position) (\<lambda>in_aoi.
       if in_aoi then
         bind_err (subscript position ''aoi_position'') (\<lambda>p. subscript p ''aoi_id'')
       else
         bind_err (contains ''lane_position'' position) (\<lambda>in_lane.
           if in_lane then
             bind_err (subscript position ''lane_position'') (\<lambda>p. subscript p ''lane_id'')
           else Inr (VInt (- 1))))"

text \<open>Lines 189 to 215: the status record of one agent of a citizen group.\<close>

definition citizen_status :: "AgentGroup \<Rightarrow> Agent \<Rightarrow> error + pydict" where
  "citizen_status g a =
     bind_err (memory_get a ''position'') (\<lambda>position.
     bind_err (bind_err (subscript position ''longlat_position'') (\<lambda>p. subscript p ''longitude'')) (\<lambda>lng.
     bind_err (bind_err (subscript position ''longlat_position'') (\<lambda>p. subscript p ''latitude'')) (\<lambda>lat.
     bind_err (status_parent_id position) (\<lambda>parent_id.
     bind_err (memory_get a ''needs'') (\<lambda>needs.
     bind_err (memory_get a ''current_step'') (\<lambda>current_step.
     bind_err (subscript current_step ''intention'') (\<lambda>action.
     bind_err (subscript needs ''hungry'') (\<lambda>hungry.
     bind_err (subscript needs ''tired'') (\<lambda>tired.
     bind_err (subscript needs ''safe'') (\<lambda>safe.
     bind_err (subscript needs ''social'') (\<lambda>social.
       Inr [(''id'', VStr (uuid a)),
            (''day'', VInt (get_simulator_day (simulator g))),
            (''t'', VInt (get_simulator_second_from_start_of_day (simulator g))),
            (''lng'', lng),
            (''lat'', lat),
            (''parent_id'', parent_id),
            (''action'', action),
            (''hungry'', hungry),
            (''tired'', tired),
            (''safe'', safe),
            (''social'', social),
            (''created_at'', VInt (now_ms g))])))))))))))"

fun memory_gets :: "Agent \<Rightarrow> string list \<Rightarrow> error + pydict" where
  "memory_gets a [] = Inr []"
| "memory_gets a (k # ks) =
     bind_err (memory_get a k) (\<lambda>v. bind_err (memory_gets a ks) (\<lambda>kvs. Inr ((k, v) # kvs)))"

text \<open>Lines 221 to 238: the status record of one agent of an institution group.\<close>

definition institution_status :: "AgentGroup \<Rightarrow> Agent \<Rightarrow> error + pydict" where
  "institution_status g a =
     bind_err (memory_gets a
        [''type'', ''nominal_gdp'', ''real_gdp'', ''unemployment'', ''wages'', ''prices'',
         ''inventory'', ''price'', ''interest_rate'', ''bracket_cutoffs'', ''bracket_rates'',
         ''employees'', ''customers'']) (\<lambda>fields.
       Inr ([(''id'', VStr (uuid a)),
             (''day'', VInt (get_simulator_day (simulator g))),
             (''t'', VInt (get_simulator_second_from_start_of_day (simulator g)))] @ fields))"

text \<open>The \<^verbatim>\<open>for agent in self.agents\<close> loops of \<^verbatim>\<open>save_status\<close>, appending to
  \<^verbatim>\<open>avros\<close>.\<close>

fun status_records :: "(Agent \<Rightarrow> error + pydict) \<Rightarrow> Agent list \<Rightarrow> pydict list \<Rightarrow> error + pydict list" where
  "status_records build [] avros = Inr avros"
| "status_records build (a # as) avros =
     (case build a of
        Inl e \<Rightarrow> Inl e
      | Inr avro \<Rightarrow> status_records build as (avros @ [avro]))"

definition save_status :: "AgentGroup \<Rightarrow> (error + unit) \<times> AgentGroup" where
  "save_status g =
     (if enable_avro g then
        (case agents g of
           [] \<Rightarrow> (Inl IndexError, g)
         | a0 # _ \<Rightarrow>
             if \<not> institution a0 then
               (case status_records (citizen_status g) (agents g) [] of
                  Inl e \<Rightarrow> (Inl e, g)
                | Inr avros \<Rightarrow>
                    (Inr (), emit [OpenFile ''status'' AB,
                                   AvroWriter ''status'' STATUS_SCHEMA avros True] g))
             else
               (case status_records (institution_status g) (agents g) [] of
                  Inl e \<Rightarrow> (Inl e, g)
                | Inr avros \<Rightarrow>
                    (Inr (), emit [OpenFile ''status'' AB,
                                   AvroWriter ''status'' INSTITUTION_STATUS_SCHEMA avros True] g)))
      else (Inr (), g))"

subsection \<open>step and run\<close>

text \<open>
  \<^verbatim>\<open>await asyncio.gather(*tasks)\<close>: every agent's \<^verbatim>\<open>run()\<close> is scheduled, in the order
  of the list, and the call returns once all of them have returned. When some of them
  raise, the first exception reaches the caller; the model takes the first in the order of
  the list, the event loop the first in time.
\<close>

definition gather_runs :: "AgentGroup \<Rightarrow> (error + unit) \<times> AgentGroup" where
  "gather_runs g =
     (case filter (\<lambda>a. \<not> run_ok a) (agents g) of
        [] \<Rightarrow> Inr ()
      | a # _ \<Rightarrow> Inl (RunFailed (uuid a)),
      emit (map (\<lambda>a. AgentRun (uuid a)) (agents g)) g)"

definition step :: "AgentGroup \<Rightarrow> (error + unit) \<times> AgentGroup" where
  "step g =
     and_then (if \<not> initialized g then init_agents g else (Inr (), g))
       (\<lambda>g. and_then (gather_runs g) save_status)"

text \<open>
  The loop of \<^verbatim>\<open>run\<close>. The list holds what the successive calls of
  \<^verbatim>\<open>simulator.get_time()\<close> return, one per turn of the loop.
\<close>

fun run_loop :: "int \<Rightarrow> int list \<Rightarrow> AgentGroup \<Rightarrow> outcome \<times> AgentGroup" where
  "run_loop end_time [] g = (Running, g)"
| "run_loop end_time (current_time # readings) g =
     (if current_time \<ge> end_time then (Returned, g)
      else (case step g of
              (Inl e, g') \<Rightarrow> (Raised e, g')
            | (Inr _, g') \<Rightarrow> run_loop end_time readings g'))"

text \<open>\<^verbatim>\<open>run(day)\<close>: the first reading is the start time; the exception of a step is logged
  and raised again.\<close>

definition run :: "int \<Rightarrow> int list \<Rightarrow> AgentGroup \<Rightarrow> outcome \<times> AgentGroup" where
  "run day readings g =
     (case readings of
        [] \<Rightarrow> (Running, g)
      | start_time # readings' \<Rightarrow> run_loop (start_time + day * 24 * 3600) readings' g)"

text \<open>\<open>n\<close> calls of \<^verbatim>\<open>step()\<close> in a row, up to the first that raises.\<close>

fun steps :: "nat \<Rightarrow> AgentGroup \<Rightarrow> (error + unit) \<times> AgentGroup" where
  "steps 0 g = (Inr (), g)"
| "steps (Suc n) g = and_then (step g) (steps n)"

text \<open>\<open>n\<close> calls of \<^verbatim>\<open>step()\<close> one after the other by a caller that goes on
  whether a call returned or raised: the state after them.\<close>

fun step_calls :: "nat \<Rightarrow> AgentGroup \<Rightarrow> AgentGroup" where
  "step_calls 0 g = g"
| "step_calls (Suc n) g = step_calls n (snd (step g))"

section \<open>Predicates of the statements and example inputs\<close>

text \<open>The subscriptions among the events of a trace.\<close>

fun is_subscribe :: "event \<Rightarrow> bool" where
  "is_subscribe (Subscribe _ _) = True"
| "is_subscribe _ = False"

text \<open>\<open>frame g g'\<close>: the states \<open>g\<close> and \<open>g'\<close> differ in their traces at most.\<close>

definition frame :: "AgentGroup \<Rightarrow> AgentGroup \<Rightarrow> bool" where
  "frame g g' = (g'\<lparr>events := []\<rparr> = g\<lparr>events := []\<rparr>)"

text \<open>
  A collaborator of the initialization raises: the binding of some agent, the connection
  of the messager or, once it is connected, its listening mode or the subscription of one
  of the topics of an agent.
\<close>

definition init_fails :: "AgentGroup \<Rightarrow> bool" where
  "init_fails g =
     (\<not> list_all bind_ok (agents g) \<or>
      \<not> connect_ok (messager g) \<or>
      (is_connected (messager g) \<and>
         (\<not> listen_ok (messager g) \<or>
          \<not> list_all (\<lambda>a. list_all (subscribe_ok (messager g)) (agent_topics (exp_id g) (uuid a)))
               (agents g))))"

text \<open>
  A citizen with the id A whose position has neither an \<^verbatim>\<open>aoi_position\<close> nor a
  \<^verbatim>\<open>lane_position\<close>, a messager that connects, and the group of this one agent in the
  experiment E, as \<^verbatim>\<open>__init__\<close> leaves it: not initialized, the mapping empty.
\<close>

definition citizen_A :: Agent where
  "citizen_A = \<lparr>uuid = ''A'', institution = False, bind_ok = True, run_ok = True,
     handler_ok = (\<lambda>_. True),
     memory = [(''position'', VDict [(''longlat_position'',
                  VDict [(''longitude'', VFloat 116), (''latitude'', VFloat 40)])]),
               (''needs'', VDict [(''hungry'', VFloat 1), (''tired'', VFloat 1),
                  (''safe'', VFloat 1), (''social'', VFloat 1)]),
               (''current_step'', VDict [(''intention'', VStr ''rest'')])],
     profile_export = [[(''name'', VStr ''Ann'')]]\<rparr>"

definition broker_up :: Messager where
  "broker_up = \<lparr>connect_ok = True, is_connected = True, listen_ok = True,
     subscribe_ok = (\<lambda>_. True)\<rparr>"

definition group_E :: AgentGroup where
  "group_E = \<lparr>agents = [citizen_A], exp_id = ''E'', enable_avro = True,
     messager = broker_up,
     simulator = \<lparr>get_simulator_day = 0, get_simulator_second_from_start_of_day = 0\<rparr>,
     initialized = False, id2agent = Map.empty, now_ms = 0, events = []\<rparr>"

text \<open>The same group when the agent cannot be bound to the simulator.\<close>

definition group_unbound :: AgentGroup where
  "group_unbound = group_E\<lparr>agents := [citizen_A\<lparr>bind_ok := False\<rparr>]\<rparr>"

text \<open>
  The events that only \<^verbatim>\<open>init_agents\<close> produces: binding, connecting, listening,
  subscribing, launching the dispatch task, and creating a snapshot file (opened for
  writing, written without codec). A status append opens for appending and writes with
  the snappy codec.
\<close>

fun init_event :: "event \<Rightarrow> bool" where
  "init_event (BindToSimulator _) = True"
| "init_event Connect = True"
| "init_event StartListening = True"
| "init_event (SetMessager _) = True"
| "init_event (Subscribe _ _) = True"
| "init_event CreateDispatchTask = True"
| "init_event (OpenFile _ m) = (m = WB)"
| "init_event (AvroWriter _ _ _ snappy) = (\<not> snappy)"
| "init_event (AgentRun _) = False"
| "init_event (Handle _ _ _) = False"
| "init_event Sleep = False"

text \<open>The group of the citizen A once initialized, and the same group when the
  \<^verbatim>\<open>run()\<close> of its agent raises.\<close>

definition group_ready :: AgentGroup where
  "group_ready = group_E\<lparr>initialized := True, id2agent := [''A'' \<mapsto> citizen_A]\<rparr>"

definition group_stuck :: AgentGroup where
  "group_stuck = group_ready\<lparr>agents := [citizen_A\<lparr>run_ok := False\<rparr>]\<rparr>"





text \<open>The events on the snapshot files.\<close>

fun file_event :: "event \<Rightarrow> bool" where
  "file_event (OpenFile _ _) = True"
| "file_event (AvroWriter _ _ _ _) = True"
| "file_event _ = False"

text \<open>Two agents that differ in their variant at most, and two groups that differ at
  most in the variants of the agents after the first (and in what \<^verbatim>\<open>init_agents\<close>
  sets: the mapping and the flag).\<close>

definition same_but_variant :: "Agent \<Rightarrow> Agent \<Rightarrow> bool" where
  "same_but_variant b b' = (b' = b\<lparr>institution := institution b'\<rparr>)"

definition variant_blind :: "AgentGroup \<Rightarrow> AgentGroup \<Rightarrow> bool" where
  "variant_blind g g' =
     (exp_id g' = exp_id g \<and> enable_avro g' = enable_avro g \<and> messager g' = messager g \<and>
      simulator g' = simulator g \<and> now_ms g' = now_ms g \<and> events g' = events g \<and>
      list_all2 same_but_variant (agents g) (agents g') \<and>
      map institution (take 1 (agents g')) = map institution (take 1 (agents g)))"

text \<open>The citizen A with a second agent B, which is a citizen in one group and an
  institution in the other.\<close>

definition citizen_B :: Agent where
  "citizen_B = citizen_A\<lparr>uuid := ''B''\<rparr>"

definition group_AB :: AgentGroup where
  "group_AB = group_E\<lparr>agents := [citizen_A, citizen_B]\<rparr>"

definition group_AB_mixed :: AgentGroup where
  "group_AB_mixed = group_E\<lparr>agents := [citizen_A, citizen_B\<lparr>institution := True\<rparr>]\<rparr>"

text \<open>
  A decoder that agrees with \<^verbatim>\<open>json.loads(payload.decode("utf-8"))\<close> on the two byte
  strings of the examples below: \<^verbatim>\<open>{}\<close> is the empty dict, \<^verbatim>\<open>hello\<close> is not JSON.
  Any other byte string is taken to raise. Then a chat message for the agent A, one for
  an agent B the group does not own, and one for B whose bytes are not JSON.
\<close>

definition loads_example :: "string \<Rightarrow> error + pyval" where
  "loads_example b = (if b = ''{}'' then Inr (VDict []) else Inl JSONDecodeError)"

definition chat_A :: Message where
  "chat_A = \<lparr>topic = ''exps/E/agents/A/agent-chat'', payload = Bytes ''{}''\<rparr>"

definition chat_B :: Message where
  "chat_B = \<lparr>topic = ''exps/E/agents/B/agent-chat'', payload = Bytes ''{}''\<rparr>"

definition garbled_B :: Message where
  "garbled_B = \<lparr>topic = ''exps/E/agents/B/agent-chat'', payload = Bytes ''hello''\<rparr>"

text \<open>
  Two more citizens: C, whose position holds an \<^verbatim>\<open>aoi_position\<close>, and L, whose position
  is the empty dict. Each forms a group with the citizen A.
\<close>

definition citizen_C :: Agent where
  "citizen_C = citizen_A\<lparr>uuid := ''C'',
     memory := [(''position'', VDict [(''longlat_position'',
                   VDict [(''longitude'', VFloat 116), (''latitude'', VFloat 40)]),
                   (''aoi_position'', VDict [(''aoi_id'', VInt 500)])]),
                (''needs'', VDict [(''hungry'', VFloat 1), (''tired'', VFloat 1),
                   (''safe'', VFloat 1), (''social'', VFloat 1)]),
                (''current_step'', VDict [(''intention'', VStr ''rest'')])]\<rparr>"

definition citizen_L :: Agent where
  "citizen_L = citizen_A\<lparr>uuid := ''L'',
     memory := [(''position'', VDict []),
                (''needs'', VDict [(''hungry'', VFloat 1), (''tired'', VFloat 1),
                   (''safe'', VFloat 1), (''social'', VFloat 1)]),
                (''current_step'', VDict [(''intention'', VStr ''rest'')])]\<rparr>"

definition group_AC :: AgentGroup where
  "group_AC = group_E\<lparr>agents := [citizen_A, citizen_C]\<rparr>"

definition group_AL :: AgentGroup where
  "group_AL = group_E\<lparr>agents := [citizen_A, citizen_L]\<rparr>"

section \<open>Properties\<close>

subsection \<open>Sequencing, traces and frames\<close>

lemma and_then_Inl [simp]: "and_then (Inl e, s) f = (Inl e, s)"
  by (simp add: and_then_def)

lemma and_then_Inr [simp]: "and_then (Inr u, s) f = f s"
  by (simp add: and_then_def)

lemma fst_and_then_ok: "fst (and_then r f) = Inr () \<Longrightarrow> fst r = Inr ()"
  by (cases r) (auto simp: and_then_def split: sum.splits)

lemma bind_agents_ok: "(fst (bind_agents as tr) = Inr ()) = list_all bind_ok as"
  by (induction as arbitrary: tr) auto

lemma bind_agents_no_subscribe:
  "filter is_subscribe (snd (bind_agents as tr)) = filter is_subscribe tr"
  by (induction as arbitrary: tr) auto

lemma subscribe_topics_ok:
  "(fst (subscribe_topics m a ts tr) = Inr ()) = list_all (subscribe_ok m) ts"
  by (induction ts arbitrary: tr) auto

lemma subscribe_topics_events:
  "fst (subscribe_topics m a ts tr) = Inr () \<Longrightarrow>
   snd (subscribe_topics m a ts tr) = tr @ map (\<lambda>t. Subscribe t a) ts"
  by (induction ts arbitrary: tr) (auto split: if_splits)

lemma subscribe_agents_ok:
  "(fst (subscribe_agents m e as tr) = Inr ()) =
   list_all (\<lambda>a. list_all (subscribe_ok m) (agent_topics e (uuid a))) as"
proof (induction as arbitrary: tr)
  case Nil
  show ?case by simp
next
  case (Cons a as)
  obtain r tr' where st: "subscribe_topics m (uuid a) (agent_topics e (uuid a)) (tr @ [SetMessager (uuid a)]) = (r, tr')"
    by (cases "subscribe_topics m (uuid a) (agent_topics e (uuid a)) (tr @ [SetMessager (uuid a)])")
  have "(r = Inr ()) = list_all (subscribe_ok m) (agent_topics e (uuid a))"
    using subscribe_topics_ok [of m "uuid a" "agent_topics e (uuid a)" "tr @ [SetMessager (uuid a)]"] st
    by simp
  then show ?case using st Cons.IH [of tr'] by (cases r) auto
qed

lemma subscribe_agents_subscriptions:
  "fst (subscribe_agents m e as tr) = Inr () \<Longrightarrow>
   filter is_subscribe (snd (subscribe_agents m e as tr)) =
   filter is_subscribe tr @
   concat (map (\<lambda>a. map (\<lambda>t. Subscribe t (uuid a)) (agent_topics e (uuid a))) as)"
proof (induction as arbitrary: tr)
  case Nil
  then show ?case by simp
next
  case (Cons a as)
  obtain r tr' where st: "subscribe_topics m (uuid a) (agent_topics e (uuid a)) (tr @ [SetMessager (uuid a)]) = (r, tr')"
    by (cases "subscribe_topics m (uuid a) (agent_topics e (uuid a)) (tr @ [SetMessager (uuid a)])")
  from Cons.prems st have r: "r = Inr ()" by (cases r) auto
  have tr': "tr' = tr @ [SetMessager (uuid a)] @ map (\<lambda>t. Subscribe t (uuid a)) (agent_topics e (uuid a))"
    using subscribe_topics_events [of m "uuid a" "agent_topics e (uuid a)" "tr @ [SetMessager (uuid a)]"] st r
    by simp
  have ok: "fst (subscribe_agents m e as tr') = Inr ()"
    using Cons.prems st r by simp
  have flt: "filter is_subscribe (map (\<lambda>t. Subscribe t (uuid a)) ts) = map (\<lambda>t. Subscribe t (uuid a)) ts" for ts
    by (induction ts) auto
  show ?case using Cons.IH [OF ok] st r tr' flt by simp
qed

lemma frame_refl [simp]: "frame g g"
  by (simp add: frame_def)

lemma frame_emit [simp]: "frame g (emit es g)"
  by (simp add: frame_def emit_def)

lemma frame_events [simp]: "frame g (g\<lparr>events := tr\<rparr>)"
  by (simp add: frame_def)

lemma frame_trans: "frame g g1 \<Longrightarrow> frame g1 g2 \<Longrightarrow> frame g g2"
  by (simp add: frame_def)

lemma frame_fields:
  assumes "frame g g'"
  shows "agents g' = agents g" "exp_id g' = exp_id g" "enable_avro g' = enable_avro g"
    "messager g' = messager g" "simulator g' = simulator g" "initialized g' = initialized g"
    "id2agent g' = id2agent g" "now_ms g' = now_ms g"
proof -
  have e: "g'\<lparr>events := []\<rparr> = g\<lparr>events := []\<rparr>" using assms by (simp add: frame_def)
  show "agents g' = agents g" using arg_cong [OF e, of agents] by simp
  show "exp_id g' = exp_id g" using arg_cong [OF e, of exp_id] by simp
  show "enable_avro g' = enable_avro g" using arg_cong [OF e, of enable_avro] by simp
  show "messager g' = messager g" using arg_cong [OF e, of messager] by simp
  show "simulator g' = simulator g" using arg_cong [OF e, of simulator] by simp
  show "initialized g' = initialized g" using arg_cong [OF e, of initialized] by simp
  show "id2agent g' = id2agent g" using arg_cong [OF e, of id2agent] by simp
  show "now_ms g' = now_ms g" using arg_cong [OF e, of now_ms] by simp
qed

lemma frame_and_then:
  assumes "frame g (snd r)" and "\<And>g1. frame g g1 \<Longrightarrow> frame g (snd (f g1))"
  shows "frame g (snd (and_then r f))"
proof (cases r)
  case (Pair x g1)
  then show ?thesis using assms by (cases x) auto
qed

lemma bind_messager_frame: "frame g (snd (bind_messager g))"
  unfolding bind_messager_def Let_def
  by (cases "subscribe_agents (messager g) (exp_id g) (agents g) (events (emit [StartListening] (emit [Connect] g)))")
     (simp add: frame_def emit_def)

lemma write_profile_frame: "frame g (snd (write_profile g))"
  unfolding write_profile_def Let_def
  by (cases "agents g"; cases "export_profiles (agents g) []") (simp_all add: frame_def emit_def)

lemma write_headers_frame: "frame g (snd (write_headers g))"
  unfolding write_headers_def Let_def
  by (cases "agents g") (simp_all add: frame_def emit_def)

lemma create_avro_files_frame: "frame g (snd (create_avro_files g))"
  unfolding create_avro_files_def
  using write_profile_frame [of g] write_headers_frame frame_trans
  by (auto intro!: frame_and_then)

lemma init_agents_cases:
  obtains
    (bind) e tr where "bind_agents (agents g) (events g) = (Inl e, tr)"
      and "init_agents g = (Inl e, g\<lparr>events := tr\<rparr>)"
  | (broker) e tr g2 where "bind_agents (agents g) (events g) = (Inr (), tr)"
      and "bind_messager (g\<lparr>events := tr, id2agent := build_id2agent (agents g)\<rparr>) = (Inl e, g2)"
      and "init_agents g = (Inl e, g2)"
  | (avro) e tr g2 g3 where "bind_agents (agents g) (events g) = (Inr (), tr)"
      and "bind_messager (g\<lparr>events := tr, id2agent := build_id2agent (agents g)\<rparr>) = (Inr (), g2)"
      and "create_avro_files (emit [CreateDispatchTask] g2) = (Inl e, g3)"
      and "init_agents g = (Inl e, g3)"
  | (ok) tr g2 g3 where "bind_agents (agents g) (events g) = (Inr (), tr)"
      and "bind_messager (g\<lparr>events := tr, id2agent := build_id2agent (agents g)\<rparr>) = (Inr (), g2)"
      and "create_avro_files (emit [CreateDispatchTask] g2) = (Inr (), g3)"
      and "init_agents g = (Inr (), g3\<lparr>initialized := True\<rparr>)"
proof (cases "bind_agents (agents g) (events g)")
  case b: (Pair r tr)
  show thesis
  proof (cases r)
    case (Inl e)
    then show thesis using b bind by (simp add: init_agents_def)
  next
    case r: (Inr u)
    show thesis
    proof (cases "bind_messager (g\<lparr>events := tr, id2agent := build_id2agent (agents g)\<rparr>)")
      case m: (Pair r2 g2)
      show thesis
      proof (cases r2)
        case (Inl e)
        then show thesis using b r m broker by (simp add: init_agents_def)
      next
        case r2: (Inr u2)
        show thesis
        proof (cases "create_avro_files (emit [CreateDispatchTask] g2)")
          case c: (Pair r3 g3)
          show thesis
          proof (cases r3)
            case (Inl e)
            then show thesis using b r m r2 c avro by (simp add: init_agents_def)
          next
            case (Inr u3)
            then show thesis using b r m r2 c ok by (simp add: init_agents_def)
          qed
        qed
      qed
    qed
  qed
qed

lemma bind_messager_keeps:
  assumes "bind_messager g1 = (r, g2)"
  shows "agents g2 = agents g1" "exp_id g2 = exp_id g1" "enable_avro g2 = enable_avro g1"
    "messager g2 = messager g1" "simulator g2 = simulator g1" "initialized g2 = initialized g1"
    "id2agent g2 = id2agent g1" "now_ms g2 = now_ms g1"
  using frame_fields [OF bind_messager_frame, of g1] assms by simp_all

lemma create_avro_files_keeps:
  assumes "create_avro_files g1 = (r, g2)"
  shows "agents g2 = agents g1" "exp_id g2 = exp_id g1" "enable_avro g2 = enable_avro g1"
    "messager g2 = messager g1" "simulator g2 = simulator g1" "initialized g2 = initialized g1"
    "id2agent g2 = id2agent g1" "now_ms g2 = now_ms g1"
  using frame_fields [OF create_avro_files_frame, of g1] assms by simp_all

lemma init_agents_keeps:
  "agents (snd (init_agents g)) = agents g"
  "exp_id (snd (init_agents g)) = exp_id g"
  "enable_avro (snd (init_agents g)) = enable_avro g"
  "messager (snd (init_agents g)) = messager g"
  "simulator (snd (init_agents g)) = simulator g"
  "now_ms (snd (init_agents g)) = now_ms g"
  by (cases g rule: init_agents_cases;
      simp add: bind_messager_keeps create_avro_files_keeps emit_def)+

lemma init_agents_raised:
  "fst (init_agents g) = Inl e \<Longrightarrow> initialized (snd (init_agents g)) = initialized g"
  by (cases g rule: init_agents_cases)
     (simp_all add: bind_messager_keeps create_avro_files_keeps emit_def)

lemma init_agents_returned:
  "fst (init_agents g) = Inr () \<Longrightarrow>
   initialized (snd (init_agents g)) \<and> id2agent (snd (init_agents g)) = build_id2agent (agents g)"
  by (cases g rule: init_agents_cases)
     (simp_all add: bind_messager_keeps create_avro_files_keeps emit_def)

lemmas example_defs = group_E_def citizen_A_def broker_up_def

lemmas init_defs = init_agents_def and_then_def bind_messager_def emit_def agent_topics_def
  create_avro_files_def write_profile_def write_headers_def build_id2agent_def

subsection \<open>The mapping from ids to agents\<close>

lemma build_id2agent_dom_aux:
  "dom (foldl (\<lambda>m a. m(uuid a \<mapsto> a)) m as) = dom m \<union> uuid ` set as"
  by (induction as arbitrary: m) auto

lemma build_id2agent_other:
  "k \<notin> uuid ` set as \<Longrightarrow> foldl (\<lambda>m a. m(uuid a \<mapsto> a)) m as k = m k"
  by (induction as arbitrary: m) auto

lemma build_id2agent_distinct_aux:
  "distinct (map uuid as) \<Longrightarrow> a \<in> set as \<Longrightarrow>
   foldl (\<lambda>m a. m(uuid a \<mapsto> a)) m as (uuid a) = Some a"
proof (induction as arbitrary: m)
  case Nil
  then show ?case by simp
next
  case (Cons x xs)
  show ?case
  proof (cases "a = x")
    case True
    then have "uuid a \<notin> uuid ` set xs" using Cons.prems(1) by auto
    then have "foldl (\<lambda>m a. m(uuid a \<mapsto> a)) (m(uuid x \<mapsto> x)) xs (uuid a) = (m(uuid x \<mapsto> x)) (uuid a)"
      by (rule build_id2agent_other)
    then show ?thesis using True by (simp del: fun_upd_apply) simp
  next
    case False
    then show ?thesis using Cons by auto
  qed
qed

text \<open>
  C9. When \<^verbatim>\<open>init_agents\<close> has returned, the keys of \<^verbatim>\<open>id2agent\<close> are exactly the ids
  of the owned agents, and, the ids of the agents being unique, every agent's id maps to
  that agent. The list of owned agents is the one the group had before.
\<close>

theorem id2agent_complete:
  assumes "fst (init_agents g) = Inr ()"
  shows "agents (snd (init_agents g)) = agents g \<and>
         dom (id2agent (snd (init_agents g))) = uuid ` set (agents g) \<and>
         (distinct (map uuid (agents g)) \<longrightarrow>
            (\<forall>a \<in> set (agents g). id2agent (snd (init_agents g)) (uuid a) = Some a))"
  using init_agents_returned [OF assms] init_agents_keeps(1) [of g]
  by (simp add: build_id2agent_def build_id2agent_dom_aux build_id2agent_distinct_aux)

theorem id2agent_complete_witness:
  "fst (init_agents group_E) = Inr () \<and>
   distinct (map uuid (agents group_E)) \<and>
   dom (id2agent (snd (init_agents group_E))) = {''A''} \<and>
   id2agent (snd (init_agents group_E)) ''A'' = Some citizen_A"
proof -
  have ok: "fst (init_agents group_E) = Inr ()"
    by (simp add: example_defs init_defs)
  have ag: "agents group_E = [citizen_A]" "uuid citizen_A = ''A''"
    by (simp_all add: example_defs)
  show ?thesis using id2agent_complete [OF ok] ok ag by simp
qed

subsection \<open>Failure of the initialization\<close>

lemma bind_messager_ok:
  "(fst (bind_messager g) = Inr ()) =
   (connect_ok (messager g) \<and>
    (is_connected (messager g) \<longrightarrow>
       listen_ok (messager g) \<and>
       list_all (\<lambda>a. list_all (subscribe_ok (messager g)) (agent_topics (exp_id g) (uuid a))) (agents g)))"
  unfolding bind_messager_def Let_def
  using subscribe_agents_ok [of "messager g" "exp_id g" "agents g" "events (emit [StartListening] (emit [Connect] g))"]
  by (cases "subscribe_agents (messager g) (exp_id g) (agents g) (events (emit [StartListening] (emit [Connect] g)))")
     auto

text \<open>
  C7. For a group that is not initialized: when the binding of an agent, the connection
  or the subscription phase raises, \<^verbatim>\<open>init_agents\<close> raises; and the group is
  initialized afterwards exactly when \<^verbatim>\<open>init_agents\<close> returned, so any exception leaves
  the flag false.
\<close>

theorem init_failure_atomic:
  assumes "\<not> initialized g"
  shows "(init_fails g \<longrightarrow> (\<exists>e. fst (init_agents g) = Inl e)) \<and>
         (initialized (snd (init_agents g)) = (fst (init_agents g) = Inr ()))"
proof -
  have a: "init_fails g \<Longrightarrow> \<exists>e. fst (init_agents g) = Inl e"
  proof (cases g rule: init_agents_cases)
    case (ok tr g2 g3)
    assume f: "init_fails g"
    have "list_all bind_ok (agents g)"
      using bind_agents_ok [of "agents g" "events g"] ok(1) by simp
    moreover have "fst (bind_messager (g\<lparr>events := tr, id2agent := build_id2agent (agents g)\<rparr>)) = Inr ()"
      using ok(2) by simp
    ultimately have "\<not> init_fails g"
      unfolding init_fails_def bind_messager_ok by simp
    then show ?thesis using f by simp
  next
    case (avro e tr g2 g3)
    have "list_all bind_ok (agents g)"
      using bind_agents_ok [of "agents g" "events g"] avro(1) by simp
    moreover have "fst (bind_messager (g\<lparr>events := tr, id2agent := build_id2agent (agents g)\<rparr>)) = Inr ()"
      using avro(2) by simp
    ultimately have "\<not> init_fails g"
      unfolding init_fails_def bind_messager_ok by simp
    moreover assume "init_fails g"
    ultimately show ?thesis by simp
  qed simp_all
  have b: "initialized (snd (init_agents g)) = (fst (init_agents g) = Inr ())"
  proof (cases "fst (init_agents g)")
    case (Inl e)
    then show ?thesis using init_agents_raised [of g e] assms by simp
  next
    case (Inr u)
    then show ?thesis using init_agents_returned [of g] by simp
  qed
  show ?thesis using a b by blast
qed

theorem init_failure_atomic_witness:
  "\<not> initialized group_unbound \<and> init_fails group_unbound \<and>
   fst (init_agents group_unbound) = Inl (BindFailed ''A'') \<and>
   \<not> initialized (snd (init_agents group_unbound))"
proof -
  have n: "\<not> initialized group_unbound"
    by (simp add: group_unbound_def example_defs)
  have f: "init_fails group_unbound"
    by (simp add: init_fails_def group_unbound_def example_defs)
  have r: "fst (init_agents group_unbound) = Inl (BindFailed ''A'')"
    by (simp add: group_unbound_def example_defs init_defs)
  show ?thesis using init_failure_atomic [OF n] n f r by simp
qed

subsection \<open>The subscriptions of the initialization\<close>

lemma write_profile_no_subscribe:
  "filter is_subscribe (events (snd (write_profile g))) = filter is_subscribe (events g)"
  unfolding write_profile_def Let_def
  by (cases "agents g"; cases "export_profiles (agents g) []") (simp_all add: emit_def)

lemma write_headers_no_subscribe:
  "filter is_subscribe (events (snd (write_headers g))) = filter is_subscribe (events g)"
  unfolding write_headers_def Let_def
  by (cases "agents g") (simp_all add: emit_def)

lemma create_avro_files_no_subscribe:
  "filter is_subscribe (events (snd (create_avro_files g))) = filter is_subscribe (events g)"
proof (cases "write_profile g")
  case (Pair r g1)
  then have "filter is_subscribe (events g1) = filter is_subscribe (events g)"
    using write_profile_no_subscribe [of g] by simp
  then show ?thesis
    using Pair write_headers_no_subscribe [of g1]
    by (cases r) (simp_all add: create_avro_files_def)
qed

lemma bind_messager_subscriptions:
  assumes "fst (bind_messager g) = Inr ()"
  shows "filter is_subscribe (events (snd (bind_messager g))) =
         filter is_subscribe (events g) @
         (if is_connected (messager g)
          then concat (map (\<lambda>a. map (\<lambda>t. Subscribe t (uuid a)) (agent_topics (exp_id g) (uuid a))) (agents g))
          else [])"
proof (cases "subscribe_agents (messager g) (exp_id g) (agents g) (events (emit [StartListening] (emit [Connect] g)))")
  case (Pair r tr)
  show ?thesis
  proof (cases "connect_ok (messager g) \<and> is_connected (messager g) \<and> listen_ok (messager g)")
    case True
    then have r: "r = Inr ()" and s: "snd (bind_messager g) = emit [StartListening] (emit [Connect] g)\<lparr>events := tr\<rparr>"
      using assms Pair by (simp_all add: bind_messager_def Let_def)
    have "fst (subscribe_agents (messager g) (exp_id g) (agents g) (events (emit [StartListening] (emit [Connect] g)))) = Inr ()"
      using Pair r by simp
    from subscribe_agents_subscriptions [OF this] Pair
    have "filter is_subscribe tr = filter is_subscribe (events (emit [StartListening] (emit [Connect] g))) @
         concat (map (\<lambda>a. map (\<lambda>t. Subscribe t (uuid a)) (agent_topics (exp_id g) (uuid a))) (agents g))"
      by simp
    then show ?thesis using True s by (simp add: emit_def)
  next
    case False
    then show ?thesis using assms by (auto simp: bind_messager_def Let_def emit_def split: if_splits)
  qed
qed

text \<open>
  C3, as the code has it. When \<^verbatim>\<open>init_agents\<close> has returned and the messager reports
  itself connected, the subscriptions it made are, for every owned agent in turn, exactly
  the four topics \<^verbatim>\<open>exps/{exp_id}/agents/{agent._uuid}/\<close> followed by agent-chat,
  user-chat, user-survey and gather; when the messager is not connected it made none. The
  prefix is \<^verbatim>\<open>exps/\<close>, not \<^verbatim>\<open>experiments/\<close>.
\<close>

theorem subscriptions_of_init:
  assumes "fst (init_agents g) = Inr ()"
  shows "filter is_subscribe (events (snd (init_agents g))) =
         filter is_subscribe (events g) @
         (if is_connected (messager g)
          then concat (map (\<lambda>a.
                 [Subscribe (''exps/'' @ exp_id g @ ''/agents/'' @ uuid a @ ''/agent-chat'') (uuid a),
                  Subscribe (''exps/'' @ exp_id g @ ''/agents/'' @ uuid a @ ''/user-chat'') (uuid a),
                  Subscribe (''exps/'' @ exp_id g @ ''/agents/'' @ uuid a @ ''/user-survey'') (uuid a),
                  Subscribe (''exps/'' @ exp_id g @ ''/agents/'' @ uuid a @ ''/gather'') (uuid a)])
                 (agents g))
          else [])"
proof (cases g rule: init_agents_cases)
  case (ok tr g2 g3)
  let ?g1 = "g\<lparr>events := tr, id2agent := build_id2agent (agents g)\<rparr>"
  have tr: "filter is_subscribe tr = filter is_subscribe (events g)"
    using bind_agents_no_subscribe [of "agents g" "events g"] ok(1) by simp
  have "fst (bind_messager ?g1) = Inr ()" using ok(2) by simp
  from bind_messager_subscriptions [OF this] ok(2)
  have g2: "filter is_subscribe (events g2) =
         filter is_subscribe (events g) @
         (if is_connected (messager g)
          then concat (map (\<lambda>a. map (\<lambda>t. Subscribe t (uuid a)) (agent_topics (exp_id g) (uuid a))) (agents g))
          else [])"
    using tr by simp
  have "filter is_subscribe (events g3) = filter is_subscribe (events (emit [CreateDispatchTask] g2))"
    using create_avro_files_no_subscribe [of "emit [CreateDispatchTask] g2"] ok(3) by simp
  then have "filter is_subscribe (events g3) = filter is_subscribe (events g2)"
    by (simp add: emit_def)
  then show ?thesis using g2 ok(4) by (simp add: agent_topics_def)
qed (use assms in simp_all)

theorem subscriptions_of_init_witness:
  "fst (init_agents group_E) = Inr () \<and>
   filter is_subscribe (events (snd (init_agents group_E))) =
     [Subscribe ''exps/E/agents/A/agent-chat'' ''A'', Subscribe ''exps/E/agents/A/user-chat'' ''A'',
      Subscribe ''exps/E/agents/A/user-survey'' ''A'', Subscribe ''exps/E/agents/A/gather'' ''A'']"
proof -
  have ok: "fst (init_agents group_E) = Inr ()"
    by (simp add: example_defs init_defs)
  show ?thesis using subscriptions_of_init [OF ok] ok by (simp add: example_defs)
qed

text \<open>
  C3 as stated fails: the group of the agent A in the experiment E subscribes to
  \<^verbatim>\<open>exps/E/agents/A/agent-chat\<close> and never to \<^verbatim>\<open>experiments/E/agents/A/agent-chat\<close>.
\<close>

theorem subscription_prefix_counterexample:
  "fst (init_agents group_E) = Inr () \<and> is_connected (messager group_E) \<and>
   Subscribe ''exps/E/agents/A/agent-chat'' ''A'' \<in> set (events (snd (init_agents group_E))) \<and>
   Subscribe ''experiments/E/agents/A/agent-chat'' ''A'' \<notin> set (events (snd (init_agents group_E)))"
  by (simp add: example_defs init_defs)

subsection \<open>One step\<close>

lemma status_records_length:
  "status_records build as avros = Inr recs \<Longrightarrow> length recs = length avros + length as"
  by (induction as arbitrary: avros) (auto split: sum.splits)

lemma save_status_frame: "frame g (snd (save_status g))"
  unfolding save_status_def
  by (cases "agents g"; cases "status_records (citizen_status g) (agents g) []";
      cases "status_records (institution_status g) (agents g) []")
     (simp_all add: frame_def emit_def)

lemma save_status_events:
  "\<exists>tail. events (snd (save_status g)) = events g @ tail \<and>
     (if fst (save_status g) = Inr () \<and> enable_avro g
      then \<exists>sch recs. tail = [OpenFile ''status'' AB, AvroWriter ''status'' sch recs True] \<and>
             length recs = length (agents g)
      else tail = [])"
proof (cases "enable_avro g")
  case False
  then show ?thesis by (simp add: save_status_def)
next
  case av: True
  show ?thesis
  proof (cases "agents g")
    case Nil
    then show ?thesis using av by (simp add: save_status_def)
  next
    case (Cons a0 as)
    show ?thesis
    proof (cases "institution a0")
      case False
      show ?thesis
      proof (cases "status_records (citizen_status g) (agents g) []")
        case (Inl e)
        then show ?thesis using av Cons False by (simp add: save_status_def)
      next
        case (Inr recs)
        then have "length recs = length (agents g)"
          using status_records_length [of "citizen_status g" "agents g" "[]" recs] by simp
        then show ?thesis using av Cons False Inr by (simp add: save_status_def emit_def)
      qed
    next
      case True
      show ?thesis
      proof (cases "status_records (institution_status g) (agents g) []")
        case (Inl e)
        then show ?thesis using av Cons True by (simp add: save_status_def)
      next
        case (Inr recs)
        then have "length recs = length (agents g)"
          using status_records_length [of "institution_status g" "agents g" "[]" recs] by simp
        then show ?thesis using av Cons True Inr by (simp add: save_status_def emit_def)
      qed
    qed
  qed
qed

lemma filter_Cons_member:
  assumes "filter P xs = a # as"
  shows "a \<in> set xs \<and> P a"
proof -
  have "a \<in> set (filter P xs)" unfolding assms by simp
  then show ?thesis by simp
qed

lemma gather_runs_ok: "(fst (gather_runs g) = Inr ()) = list_all run_ok (agents g)"
proof (cases "filter (\<lambda>a. \<not> run_ok a) (agents g)")
  case Nil
  then have "list_all run_ok (agents g)"
    by (simp add: list_all_iff filter_empty_conv)
  then show ?thesis using Nil by (simp add: gather_runs_def)
next
  case (Cons a as)
  from filter_Cons_member [OF this] have "\<not> list_all run_ok (agents g)"
    by (auto simp: list_all_iff)
  then show ?thesis using Cons by (simp add: gather_runs_def)
qed

lemma gather_runs_raised:
  assumes "\<not> list_all run_ok (agents g)"
  shows "\<exists>a \<in> set (agents g). \<not> run_ok a \<and> fst (gather_runs g) = Inl (RunFailed (uuid a))"
proof (cases "filter (\<lambda>a. \<not> run_ok a) (agents g)")
  case Nil
  then show ?thesis using assms by (simp add: list_all_iff filter_empty_conv)
next
  case (Cons a as)
  from filter_Cons_member [OF this] have "a \<in> set (agents g)" "\<not> run_ok a" by simp_all
  moreover have "fst (gather_runs g) = Inl (RunFailed (uuid a))"
    using Cons by (simp add: gather_runs_def)
  ultimately show ?thesis by blast
qed

lemma gather_runs_state:
  "snd (gather_runs g) = emit (map (\<lambda>a. AgentRun (uuid a)) (agents g)) g"
  by (simp add: gather_runs_def)

lemma step_initialized:
  "initialized g \<Longrightarrow> step g = and_then (gather_runs g) save_status"
  by (simp add: step_def)

lemma step_trace:
  assumes "initialized g"
  shows "(\<exists>tail. events (snd (step g)) = events g @ map (\<lambda>a. AgentRun (uuid a)) (agents g) @ tail \<and>
            (if fst (step g) = Inr ()
             then list_all run_ok (agents g) \<and>
                  (if enable_avro g
                   then \<exists>sch recs. tail = [OpenFile ''status'' AB, AvroWriter ''status'' sch recs True]
                   else tail = [])
             else tail = [])) \<and>
         (\<not> list_all run_ok (agents g) \<longrightarrow>
            (\<exists>a \<in> set (agents g). \<not> run_ok a \<and> fst (step g) = Inl (RunFailed (uuid a))))"
proof (cases "list_all run_ok (agents g)")
  case False
  obtain a where a: "a \<in> set (agents g)" "\<not> run_ok a" "fst (gather_runs g) = Inl (RunFailed (uuid a))"
    using gather_runs_raised [OF False] by blast
  have "gather_runs g = (Inl (RunFailed (uuid a)), emit (map (\<lambda>a. AgentRun (uuid a)) (agents g)) g)"
    using a(3) gather_runs_state [of g] by (cases "gather_runs g") simp
  then have "step g = (Inl (RunFailed (uuid a)), emit (map (\<lambda>a. AgentRun (uuid a)) (agents g)) g)"
    using assms by (simp add: step_initialized)
  then show ?thesis using a False by (auto simp: emit_def)
next
  case True
  let ?g1 = "emit (map (\<lambda>a. AgentRun (uuid a)) (agents g)) g"
  have "fst (gather_runs g) = Inr ()" using True by (simp add: gather_runs_ok)
  then have "gather_runs g = (Inr (), ?g1)"
    using gather_runs_state [of g] by (cases "gather_runs g") simp
  then have st: "step g = save_status ?g1"
    using assms by (simp add: step_initialized)
  obtain tail where tail: "events (snd (save_status ?g1)) = events ?g1 @ tail"
    "if fst (save_status ?g1) = Inr () \<and> enable_avro ?g1
     then \<exists>sch recs. tail = [OpenFile ''status'' AB, AvroWriter ''status'' sch recs True] \<and>
            length recs = length (agents ?g1)
     else tail = []"
    using save_status_events [of ?g1] by blast
  have en: "enable_avro ?g1 = enable_avro g" by (simp add: emit_def)
  have noavro: "\<not> enable_avro g \<Longrightarrow> fst (save_status ?g1) = Inr ()"
    using en by (simp add: save_status_def)
  have "events (snd (step g)) = events g @ map (\<lambda>a. AgentRun (uuid a)) (agents g) @ tail"
    using st tail(1) by (simp add: emit_def)
  moreover have "if fst (step g) = Inr ()
             then list_all run_ok (agents g) \<and>
                  (if enable_avro g
                   then \<exists>sch recs. tail = [OpenFile ''status'' AB, AvroWriter ''status'' sch recs True]
                   else tail = [])
             else tail = []"
    using tail(2) st en True noavro by (auto split: if_splits)
  ultimately show ?thesis using True by blast
qed

text \<open>
  C4. For an initialized group, the trace of \<^verbatim>\<open>step()\<close> is the \<^verbatim>\<open>run()\<close> of every
  owned agent followed by a tail. When \<^verbatim>\<open>step()\<close> returns, every agent's
  \<^verbatim>\<open>run()\<close> has returned and the tail is the one append to the status file (empty
  when snapshots are disabled); when it raises, the tail is empty: nothing was appended.
  When the \<^verbatim>\<open>run()\<close> of some agent raises, \<^verbatim>\<open>step()\<close> raises the exception of such
  an agent.
\<close>

theorem step_fan_in:
  assumes "initialized g"
  shows "(\<exists>tail. events (snd (step g)) = events g @ map (\<lambda>a. AgentRun (uuid a)) (agents g) @ tail \<and>
            (if fst (step g) = Inr ()
             then list_all run_ok (agents g) \<and>
                  (if enable_avro g
                   then \<exists>sch recs. tail = [OpenFile ''status'' AB, AvroWriter ''status'' sch recs True]
                   else tail = [])
             else tail = [])) \<and>
         (\<not> list_all run_ok (agents g) \<longrightarrow>
            (\<exists>a \<in> set (agents g). \<not> run_ok a \<and> fst (step g) = Inl (RunFailed (uuid a))))"
  using step_trace [OF assms] .

theorem step_fan_in_witness:
  "initialized group_stuck \<and>
   fst (step group_stuck) = Inl (RunFailed ''A'') \<and>
   events (snd (step group_stuck)) = [AgentRun ''A'']"
proof -
  have i: "initialized group_stuck"
    by (simp add: group_stuck_def group_ready_def example_defs)
  have r: "fst (step group_stuck) = Inl (RunFailed ''A'')"
    by (simp add: group_stuck_def group_ready_def example_defs step_def gather_runs_def emit_def)
  have e: "events group_stuck = []" "agents group_stuck = [citizen_A\<lparr>run_ok := False\<rparr>]"
    by (simp_all add: group_stuck_def group_ready_def example_defs)
  show ?thesis using step_fan_in [OF i] i r e by (auto simp: citizen_A_def)
qed

subsection \<open>Initialization happens once\<close>

lemma gather_runs_frame: "frame g (snd (gather_runs g))"
  by (simp add: gather_runs_state)

lemma step_keeps_initialized:
  assumes "initialized g"
  shows "initialized (snd (step g))"
proof -
  have "frame g (snd (and_then (gather_runs g) save_status))"
    using gather_runs_frame save_status_frame frame_trans by (blast intro: frame_and_then)
  then show ?thesis using assms frame_fields(6) by (simp add: step_initialized)
qed

lemma step_no_init_event:
  assumes "initialized g"
  shows "filter init_event (events (snd (step g))) = filter init_event (events g)"
proof -
  obtain tail where t: "events (snd (step g)) = events g @ map (\<lambda>a. AgentRun (uuid a)) (agents g) @ tail"
    "if fst (step g) = Inr ()
     then list_all run_ok (agents g) \<and>
          (if enable_avro g
           then \<exists>sch recs. tail = [OpenFile ''status'' AB, AvroWriter ''status'' sch recs True]
           else tail = [])
     else tail = []"
    using step_trace [OF assms] by blast
  have "filter init_event tail = []"
    using t(2) by (auto split: if_splits)
  moreover have "filter init_event (map (\<lambda>a. AgentRun (uuid a)) as) = []" for as
    by (induction as) simp_all
  ultimately show ?thesis using t(1) by simp
qed

lemma steps_no_init_event:
  "initialized g \<Longrightarrow>
   initialized (snd (steps n g)) \<and>
   filter init_event (events (snd (steps n g))) = filter init_event (events g)"
proof (induction n arbitrary: g)
  case 0
  then show ?case by simp
next
  case (Suc n)
  obtain r g1 where s: "step g = (r, g1)" by (cases "step g")
  have g1: "initialized g1" "filter init_event (events g1) = filter init_event (events g)"
    using step_keeps_initialized [OF Suc.prems] step_no_init_event [OF Suc.prems] s by simp_all
  show ?case
  proof (cases r)
    case (Inl e)
    then show ?thesis using s g1 by simp
  next
    case (Inr u)
    then show ?thesis using s g1 Suc.IH [OF g1(1)] by simp
  qed
qed

subsection \<open>The loop of run\<close>

lemma run_loop_below:
  "\<forall>t \<in> set pre. t < end_time \<Longrightarrow>
   run_loop end_time (pre @ rest) g =
   (case steps (length pre) g of
      (Inl e, g') \<Rightarrow> (Raised e, g')
    | (Inr _, g') \<Rightarrow> run_loop end_time rest g')"
proof (induction pre arbitrary: g)
  case Nil
  then show ?case by simp
next
  case (Cons t pre)
  obtain r g1 where s: "step g = (r, g1)" by (cases "step g")
  show ?case
  proof (cases r)
    case (Inl e)
    then show ?thesis using s Cons.prems by simp
  next
    case (Inr u)
    then show ?thesis using s Cons.prems Cons.IH [of g1] by simp
  qed
qed

text \<open>
  C5. \<^verbatim>\<open>run(d)\<close> started at the simulator time \<open>t0\<close> compares every later reading of
  the time with \<open>t0 + d * 86400\<close>. While the readings are below it, each of them is
  followed by one \<^verbatim>\<open>step()\<close> and the loop goes on (unless a step raises, which ends the
  run with that exception). At the first reading that has reached it, \<^verbatim>\<open>run\<close> returns
  without another step, whatever the simulator would have answered later.
\<close>

theorem run_until_end_time:
  assumes "\<forall>t \<in> set pre. t < t0 + d * 86400"
  shows "(t0 + d * 86400 \<le> t \<longrightarrow>
            run d (t0 # pre @ t # post) g =
            (case steps (length pre) g of
               (Inl e, g') \<Rightarrow> (Raised e, g')
             | (Inr _, g') \<Rightarrow> (Returned, g'))) \<and>
         run d (t0 # pre) g =
           (case steps (length pre) g of
              (Inl e, g') \<Rightarrow> (Raised e, g')
            | (Inr _, g') \<Rightarrow> (Running, g'))"
proof -
  have e: "t0 + d * 24 * 3600 = t0 + d * 86400" by simp
  have "run_loop (t0 + d * 86400) (pre @ t # post) g =
        (case steps (length pre) g of
           (Inl e, g') \<Rightarrow> (Raised e, g')
         | (Inr _, g') \<Rightarrow> run_loop (t0 + d * 86400) (t # post) g')"
    by (rule run_loop_below [OF assms])
  moreover have "run_loop (t0 + d * 86400) (pre @ []) g =
        (case steps (length pre) g of
           (Inl e, g') \<Rightarrow> (Raised e, g')
         | (Inr _, g') \<Rightarrow> run_loop (t0 + d * 86400) [] g')"
    by (rule run_loop_below [OF assms])
  ultimately show ?thesis
    unfolding run_def list.case e by (auto split: prod.splits sum.splits)
qed

theorem run_until_end_time_witness:
  "(5::int) < 0 + 1 * 86400 \<and> (0::int) + 1 * 86400 \<le> 86400 \<and>
   fst (run 1 [0, 5, 86400, 7] group_ready) = Returned \<and>
   length (events (snd (run 1 [0, 5, 86400, 7] group_ready))) = 3"
proof -
  have h: "\<forall>t \<in> set [5]. t < (0::int) + 1 * 86400" by simp
  have s: "fst (steps 1 group_ready) = Inr ()" "length (events (snd (steps 1 group_ready))) = 3"
    by (simp_all add: group_ready_def example_defs step_def gather_runs_def save_status_def
         citizen_status_def memory_get_def status_parent_id_def bind_err_def emit_def)
  show ?thesis
    using run_until_end_time [OF h, of 86400 "[7]" group_ready] s
    by (cases "steps 1 group_ready") auto
qed

subsection \<open>The dispatch of messages\<close>


lemma dispatch_message_unknown:
  assumes "decode_payload loads (payload message) = Inr p"
    and "split CHR ''/'' (strip CHR ''/'' (topic message)) = [x1, x2, x3, agent_uuid, topic_type]"
    and "id2agent g agent_uuid = None"
  shows "dispatch_message loads g message tr = (Inr (), tr)"
  using assms by (simp add: dispatch_message_def)

lemma dispatch_message_known:
  assumes "decode_payload loads (payload message) = Inr p"
    and "split CHR ''/'' (strip CHR ''/'' (topic message)) = [x1, x2, x3, agent_uuid, topic_type]"
    and "id2agent g agent_uuid = Some agent"
    and "handler_of topic_type = Some h"
  shows "dispatch_message loads g message tr =
         (if handler_ok agent h then Inr () else Inl (HandlerFailed (uuid agent)),
          tr @ [Handle h (uuid agent) p])"
  using assms by (simp add: dispatch_message_def)


lemma dispatch_messages_append:
  "dispatch_messages loads g (xs @ ys) tr =
   (case dispatch_messages loads g xs tr of
      (Inl e, tr') \<Rightarrow> (Inl e, tr')
    | (Inr _, tr') \<Rightarrow> dispatch_messages loads g ys tr')"
proof (induction xs arbitrary: tr)
  case Nil
  show ?case by simp
next
  case (Cons x xs)
  obtain r tr1 where d: "dispatch_message loads g x tr = (r, tr1)"
    by (cases "dispatch_message loads g x tr")
  show ?case using d Cons.IH [of tr1] by (cases r) simp_all
qed




subsection \<open>The status records\<close>

lemma status_records_all:
  "\<forall>a \<in> set as. \<exists>r. build a = Inr r \<Longrightarrow>
   \<exists>recs. status_records build as avros = Inr (avros @ recs) \<and> map Inr recs = map build as"
proof (induction as arbitrary: avros)
  case Nil
  then show ?case by simp
next
  case (Cons a as)
  obtain r where r: "build a = Inr r" using Cons.prems by auto
  obtain recs where recs: "status_records build as (avros @ [r]) = Inr ((avros @ [r]) @ recs)"
    "map Inr recs = map build as"
    using Cons.IH [of "avros @ [r]"] Cons.prems by auto
  have "status_records build (a # as) avros = Inr (avros @ (r # recs))"
    using r recs(1) by simp
  moreover have "map Inr (r # recs) = map build (a # as)"
    using r recs(2) by simp
  ultimately show ?case by blast
qed

lemma citizen_status_sentinel:
  assumes "map_of (memory a) ''position'' = Some (VDict position)"
    and "map_of position ''aoi_position'' = None"
    and "map_of position ''lane_position'' = None"
    and "map_of position ''longlat_position'' = Some (VDict longlat)"
    and "map_of longlat ''longitude'' = Some lng"
    and "map_of longlat ''latitude'' = Some lat"
    and "map_of (memory a) ''needs'' = Some (VDict needs)"
    and "map_of needs ''hungry'' = Some hungry"
    and "map_of needs ''tired'' = Some tired"
    and "map_of needs ''safe'' = Some safe"
    and "map_of needs ''social'' = Some social"
    and "map_of (memory a) ''current_step'' = Some (VDict current_step)"
    and "map_of current_step ''intention'' = Some action"
  shows "citizen_status g a =
         Inr [(''id'', VStr (uuid a)),
              (''day'', VInt (get_simulator_day (simulator g))),
              (''t'', VInt (get_simulator_second_from_start_of_day (simulator g))),
              (''lng'', lng), (''lat'', lat),
              (''parent_id'', VInt (- 1)),
              (''action'', action),
              (''hungry'', hungry), (''tired'', tired), (''safe'', safe), (''social'', social),
              (''created_at'', VInt (now_ms g))]"
  using assms
  by (simp add: citizen_status_def memory_get_def status_parent_id_def bind_err_def)

subsection \<open>The variant of the group\<close>

lemma same_but_variant_fields:
  assumes "same_but_variant b b'"
  shows "uuid b' = uuid b" "bind_ok b' = bind_ok b" "run_ok b' = run_ok b"
    "handler_ok b' = handler_ok b" "memory b' = memory b" "profile_export b' = profile_export b"
proof -
  have e: "b' = b\<lparr>institution := institution b'\<rparr>" using assms by (simp add: same_but_variant_def)
  show "uuid b' = uuid b" by (subst e) simp
  show "bind_ok b' = bind_ok b" by (subst e) simp
  show "run_ok b' = run_ok b" by (subst e) simp
  show "handler_ok b' = handler_ok b" by (subst e) simp
  show "memory b' = memory b" by (subst e) simp
  show "profile_export b' = profile_export b" by (subst e) simp
qed

lemma bind_agents_blind:
  "list_all2 same_but_variant as bs \<Longrightarrow> bind_agents bs tr = bind_agents as tr"
proof (induction as bs arbitrary: tr rule: list_all2_induct)
  case Nil
  show ?case by simp
next
  case (Cons a as b bs)
  then show ?case using same_but_variant_fields [OF Cons.hyps(1)] by simp
qed

lemma subscribe_agents_blind:
  "list_all2 same_but_variant as bs \<Longrightarrow> subscribe_agents m e bs tr = subscribe_agents m e as tr"
proof (induction as bs arbitrary: tr rule: list_all2_induct)
  case Nil
  show ?case by simp
next
  case (Cons a as b bs)
  then show ?case using same_but_variant_fields [OF Cons.hyps(1)]
    by (simp split: prod.splits sum.splits)
qed

lemma export_profiles_blind:
  "list_all2 same_but_variant as bs \<Longrightarrow> export_profiles bs ps = export_profiles as ps"
proof (induction as bs arbitrary: ps rule: list_all2_induct)
  case Nil
  show ?case by simp
next
  case (Cons a as b bs)
  then show ?case using same_but_variant_fields [OF Cons.hyps(1)]
    by (simp split: list.splits)
qed

lemma status_records_blind:
  assumes "\<And>a b. same_but_variant a b \<Longrightarrow> build' b = build a"
  shows "list_all2 same_but_variant as bs \<Longrightarrow>
         status_records build' bs avros = status_records build as avros"
proof (induction as bs arbitrary: avros rule: list_all2_induct)
  case Nil
  show ?case by simp
next
  case (Cons a as b bs)
  then show ?case using assms [OF Cons.hyps(1)] by (simp split: sum.splits)
qed

lemma memory_gets_blind:
  "same_but_variant a b \<Longrightarrow> memory_gets b ks = memory_gets a ks"
  by (induction ks) (simp_all add: memory_get_def same_but_variant_fields)

lemma citizen_status_blind:
  assumes "variant_blind g g'" and "same_but_variant a b"
  shows "citizen_status g' b = citizen_status g a"
  using assms(1) same_but_variant_fields [OF assms(2)]
  by (simp add: citizen_status_def memory_get_def variant_blind_def)

lemma institution_status_blind:
  assumes "variant_blind g g'" and "same_but_variant a b"
  shows "institution_status g' b = institution_status g a"
  unfolding institution_status_def memory_gets_blind [OF assms(2)]
  using assms(1) same_but_variant_fields(1) [OF assms(2)]
  by (simp add: variant_blind_def del: memory_gets.simps)

lemma variant_blind_head:
  assumes "variant_blind g g'"
  shows "(agents g = []) = (agents g' = [])"
    and "agents g = a # as \<Longrightarrow> \<exists>b bs. agents g' = b # bs \<and> institution b = institution a"
proof -
  have l: "list_all2 same_but_variant (agents g) (agents g')"
    and h: "map institution (take 1 (agents g')) = map institution (take 1 (agents g))"
    using assms by (simp_all add: variant_blind_def)
  show "(agents g = []) = (agents g' = [])" using l by (cases "agents g"; cases "agents g'") simp_all
  show "\<exists>b bs. agents g' = b # bs \<and> institution b = institution a" if "agents g = a # as"
    using l h that by (cases "agents g'") simp_all
qed

lemma variant_blind_frame:
  assumes "variant_blind g g'" and "frame g k" and "frame g' k'" and "events k' = events k"
  shows "variant_blind k k'"
  using assms(1,4) frame_fields [OF assms(2)] frame_fields [OF assms(3)]
  by (simp add: variant_blind_def)

lemma variant_blind_and_then:
  assumes "fst r' = fst r" and "variant_blind (snd r) (snd r')"
    and "\<And>s s'. variant_blind s s' \<Longrightarrow> fst (f s') = fst (f s) \<and> variant_blind (snd (f s)) (snd (f s'))"
  shows "fst (and_then r' f) = fst (and_then r f) \<and>
         variant_blind (snd (and_then r f)) (snd (and_then r' f))"
proof (cases r)
  case r: (Pair x s)
  show ?thesis
  proof (cases r')
    case r': (Pair x' s')
    show ?thesis using assms r r' by (cases x) auto
  qed
qed

lemma save_status_blind:
  assumes "variant_blind g g'"
  shows "fst (save_status g') = fst (save_status g) \<and>
         variant_blind (snd (save_status g)) (snd (save_status g'))"
proof -
  have en: "enable_avro g' = enable_avro g"
    and l: "list_all2 same_but_variant (agents g) (agents g')"
    using assms by (simp_all add: variant_blind_def)
  have c: "status_records (citizen_status g') (agents g') [] =
           status_records (citizen_status g) (agents g) []"
    using status_records_blind [of "citizen_status g'" "citizen_status g", OF _ l]
      citizen_status_blind [OF assms] by simp
  have i: "status_records (institution_status g') (agents g') [] =
           status_records (institution_status g) (agents g) []"
    using status_records_blind [of "institution_status g'" "institution_status g", OF _ l]
      institution_status_blind [OF assms] by simp
  have f: "fst (save_status g') = fst (save_status g) \<and>
           events (snd (save_status g')) = events (snd (save_status g))"
  proof (cases "agents g")
    case Nil
    then have "agents g' = []" using variant_blind_head(1) [OF assms] by simp
    then show ?thesis using Nil en assms by (simp add: save_status_def variant_blind_def)
  next
    case (Cons a as)
    then obtain b bs where b: "agents g' = b # bs" "institution b = institution a"
      using variant_blind_head(2) [OF assms] by blast
    have ev: "events g' = events g" using assms by (simp add: variant_blind_def)
    show ?thesis
      unfolding save_status_def c i en
      using Cons b ev
      by (simp add: emit_def split: sum.splits)
  qed
  then show ?thesis
    using variant_blind_frame [OF assms save_status_frame save_status_frame] by simp
qed

lemma bind_messager_blind:
  assumes "variant_blind g g'"
  shows "fst (bind_messager g') = fst (bind_messager g) \<and>
         variant_blind (snd (bind_messager g)) (snd (bind_messager g'))"
proof -
  have e: "messager g' = messager g" "exp_id g' = exp_id g" "events g' = events g"
    and l: "list_all2 same_but_variant (agents g) (agents g')"
    using assms by (simp_all add: variant_blind_def)
  have "fst (bind_messager g') = fst (bind_messager g) \<and>
        events (snd (bind_messager g')) = events (snd (bind_messager g))"
    unfolding bind_messager_def Let_def e emit_def
    using subscribe_agents_blind [OF l] e(3)
    by (simp split: prod.splits)
  then show ?thesis
    using variant_blind_frame [OF assms bind_messager_frame bind_messager_frame] by simp
qed

lemma write_profile_blind:
  assumes "variant_blind g g'"
  shows "fst (write_profile g') = fst (write_profile g) \<and>
         variant_blind (snd (write_profile g)) (snd (write_profile g'))"
proof -
  have l: "list_all2 same_but_variant (agents g) (agents g')"
    and ev: "events g' = events g"
    using assms by (simp_all add: variant_blind_def)
  have f: "fst (write_profile g') = fst (write_profile g) \<and>
           events (snd (write_profile g')) = events (snd (write_profile g))"
  proof (cases "agents g")
    case Nil
    then have "agents g' = []" using variant_blind_head(1) [OF assms] by simp
    then show ?thesis using Nil ev by (simp add: write_profile_def)
  next
    case (Cons a as)
    then obtain b bs where b: "agents g' = b # bs" "institution b = institution a"
      using variant_blind_head(2) [OF assms] by blast
    have x: "export_profiles (b # bs) [] = export_profiles (a # as) []"
      using export_profiles_blind [OF l] Cons b by simp
    show ?thesis
      unfolding write_profile_def Let_def Cons b list.case x
      using b(2) ev by (simp add: emit_def split: sum.splits)
  qed
  then show ?thesis
    using variant_blind_frame [OF assms write_profile_frame write_profile_frame] by simp
qed

lemma write_headers_blind:
  assumes "variant_blind g g'"
  shows "fst (write_headers g') = fst (write_headers g) \<and>
         variant_blind (snd (write_headers g)) (snd (write_headers g'))"
proof -
  have ev: "events g' = events g"
    using assms by (simp add: variant_blind_def)
  have f: "fst (write_headers g') = fst (write_headers g) \<and>
           events (snd (write_headers g')) = events (snd (write_headers g))"
  proof (cases "agents g")
    case Nil
    then have "agents g' = []" using variant_blind_head(1) [OF assms] by simp
    then show ?thesis using Nil ev by (simp add: write_headers_def emit_def)
  next
    case (Cons a as)
    then obtain b bs where b: "agents g' = b # bs" "institution b = institution a"
      using variant_blind_head(2) [OF assms] by blast
    show ?thesis using Cons b ev by (simp add: write_headers_def emit_def)
  qed
  then show ?thesis
    using variant_blind_frame [OF assms write_headers_frame write_headers_frame] by simp
qed

lemma create_avro_files_blind:
  assumes "variant_blind g g'"
  shows "fst (create_avro_files g') = fst (create_avro_files g) \<and>
         variant_blind (snd (create_avro_files g)) (snd (create_avro_files g'))"
proof (cases "enable_avro g")
  case False
  then have "\<not> enable_avro g'" using assms by (simp add: variant_blind_def)
  then show ?thesis using False assms by (simp add: create_avro_files_def)
next
  case True
  then have "enable_avro g'" using assms by (simp add: variant_blind_def)
  then show ?thesis
    unfolding create_avro_files_def
    using True write_profile_blind [OF assms] write_headers_blind
    by (simp add: variant_blind_and_then)
qed

lemma variant_blind_emit:
  "variant_blind g g' \<Longrightarrow> variant_blind (emit es g) (emit es g')"
  by (simp add: variant_blind_def emit_def)

lemma init_agents_blind:
  assumes "variant_blind g g'"
  shows "fst (init_agents g') = fst (init_agents g) \<and>
         events (snd (init_agents g')) = events (snd (init_agents g))"
proof -
  have l: "list_all2 same_but_variant (agents g) (agents g')"
    and ev: "events g' = events g"
    using assms by (simp_all add: variant_blind_def)
  obtain r tr where b: "bind_agents (agents g) (events g) = (r, tr)"
    by (cases "bind_agents (agents g) (events g)")
  then have b': "bind_agents (agents g') (events g') = (r, tr)"
    using bind_agents_blind [OF l] ev by simp
  show ?thesis
  proof (cases r)
    case (Inl e)
    then show ?thesis using b b' by (simp add: init_agents_def)
  next
    case (Inr u)
    let ?h = "g\<lparr>events := tr, id2agent := build_id2agent (agents g)\<rparr>"
    let ?h' = "g'\<lparr>events := tr, id2agent := build_id2agent (agents g')\<rparr>"
    let ?mark = "\<lambda>g::AgentGroup. (Inr () :: error + unit, g\<lparr>initialized := True\<rparr>)"
    let ?rest = "\<lambda>g. and_then (create_avro_files (emit [CreateDispatchTask] g)) ?mark"
    have h: "variant_blind ?h ?h'" using assms by (simp add: variant_blind_def)
    have mark: "fst (?mark s') = fst (?mark s) \<and> variant_blind (snd (?mark s)) (snd (?mark s'))"
      if "variant_blind s s'" for s s'
      using that by (simp add: variant_blind_def)
    have rest: "fst (?rest s') = fst (?rest s) \<and> variant_blind (snd (?rest s)) (snd (?rest s'))"
      if "variant_blind s s'" for s s'
    proof (rule variant_blind_and_then)
      show "fst (create_avro_files (emit [CreateDispatchTask] s')) =
            fst (create_avro_files (emit [CreateDispatchTask] s))"
        using create_avro_files_blind [OF variant_blind_emit [OF that]] by simp
      show "variant_blind (snd (create_avro_files (emit [CreateDispatchTask] s)))
              (snd (create_avro_files (emit [CreateDispatchTask] s')))"
        using create_avro_files_blind [OF variant_blind_emit [OF that]] by simp
      show "fst (?mark t') = fst (?mark t) \<and> variant_blind (snd (?mark t)) (snd (?mark t'))"
        if "variant_blind t t'" for t t'
        using mark [OF that] .
    qed
    have "fst (and_then (bind_messager ?h') ?rest) = fst (and_then (bind_messager ?h) ?rest) \<and>
          variant_blind (snd (and_then (bind_messager ?h) ?rest)) (snd (and_then (bind_messager ?h') ?rest))"
    proof (rule variant_blind_and_then)
      show "fst (bind_messager ?h') = fst (bind_messager ?h)"
        using bind_messager_blind [OF h] by simp
      show "variant_blind (snd (bind_messager ?h)) (snd (bind_messager ?h'))"
        using bind_messager_blind [OF h] by simp
      show "fst (?rest t') = fst (?rest t) \<and> variant_blind (snd (?rest t)) (snd (?rest t'))"
        if "variant_blind t t'" for t t'
        using rest [OF that] .
    qed
    then show ?thesis using b b' Inr by (simp add: init_agents_def variant_blind_def)
  qed
qed

lemma bind_agents_no_file:
  "filter file_event (snd (bind_agents as tr)) = filter file_event tr"
  by (induction as arbitrary: tr) auto

lemma subscribe_topics_no_file:
  "filter file_event (snd (subscribe_topics m a ts tr)) = filter file_event tr"
  by (induction ts arbitrary: tr) auto

lemma subscribe_agents_no_file:
  "filter file_event (snd (subscribe_agents m e as tr)) = filter file_event tr"
proof (induction as arbitrary: tr)
  case Nil
  show ?case by simp
next
  case (Cons a as)
  obtain r tr' where st: "subscribe_topics m (uuid a) (agent_topics e (uuid a)) (tr @ [SetMessager (uuid a)]) = (r, tr')"
    by (cases "subscribe_topics m (uuid a) (agent_topics e (uuid a)) (tr @ [SetMessager (uuid a)])")
  have "filter file_event tr' = filter file_event tr"
    using subscribe_topics_no_file [of m "uuid a" "agent_topics e (uuid a)" "tr @ [SetMessager (uuid a)]"] st
    by simp
  then show ?case using st Cons.IH [of tr'] by (cases r) simp_all
qed

lemma bind_messager_no_file:
  "filter file_event (events (snd (bind_messager g))) = filter file_event (events g)"
proof (cases "subscribe_agents (messager g) (exp_id g) (agents g) (events g @ [Connect, StartListening])")
  case (Pair r tr)
  then have "filter file_event tr = filter file_event (events g)"
    using subscribe_agents_no_file [of "messager g" "exp_id g" "agents g" "events g @ [Connect, StartListening]"]
    by simp
  then show ?thesis using Pair by (simp add: bind_messager_def Let_def emit_def)
qed

lemma export_profiles_length:
  "export_profiles as ps = Inr profiles \<Longrightarrow> length profiles = length ps + length as"
  by (induction as arbitrary: ps) (auto split: list.splits)

lemma create_avro_files_events:
  assumes "enable_avro g" and "agents g = a0 # others" and "fst (create_avro_files g) = Inr ()"
  shows "\<exists>profiles. length profiles = length (agents g) \<and>
           events (snd (create_avro_files g)) =
           events g @
           (if institution a0 then []
            else [OpenFile ''profile'' WB, AvroWriter ''profile'' PROFILE_SCHEMA profiles False]) @
           [OpenFile ''dialog'' WB, AvroWriter ''dialog'' DIALOG_SCHEMA [] False,
            OpenFile ''status'' WB,
            AvroWriter ''status''
              (if institution a0 then INSTITUTION_STATUS_SCHEMA else STATUS_SCHEMA) [] False,
            OpenFile ''survey'' WB, AvroWriter ''survey'' SURVEY_SCHEMA [] False]"
proof (cases "institution a0")
  case True
  then show ?thesis
    using assms(1,2)
    by (simp add: create_avro_files_def write_profile_def write_headers_def emit_def
          exI [of _ "replicate (length (agents g)) []"])
next
  case False
  show ?thesis
  proof (cases "export_profiles (agents g) []")
    case (Inl e)
    then show ?thesis
      using assms False by (simp add: create_avro_files_def write_profile_def)
  next
    case (Inr profiles)
    then have "length profiles = length (agents g)"
      using export_profiles_length [of "agents g" "[]" profiles] by simp
    then show ?thesis
      using assms(1,2) False Inr
      by (simp add: create_avro_files_def write_profile_def write_headers_def emit_def)
  qed
qed

lemma init_agents_file_events:
  assumes "enable_avro g" and "agents g = a0 # others" and "fst (init_agents g) = Inr ()"
  shows "\<exists>profiles. length profiles = length (agents g) \<and>
           filter file_event (events (snd (init_agents g))) =
           filter file_event (events g) @
           (if institution a0 then []
            else [OpenFile ''profile'' WB, AvroWriter ''profile'' PROFILE_SCHEMA profiles False]) @
           [OpenFile ''dialog'' WB, AvroWriter ''dialog'' DIALOG_SCHEMA [] False,
            OpenFile ''status'' WB,
            AvroWriter ''status''
              (if institution a0 then INSTITUTION_STATUS_SCHEMA else STATUS_SCHEMA) [] False,
            OpenFile ''survey'' WB, AvroWriter ''survey'' SURVEY_SCHEMA [] False]"
proof (cases g rule: init_agents_cases)
  case (ok tr g2 g3)
  let ?g1 = "g\<lparr>events := tr, id2agent := build_id2agent (agents g)\<rparr>"
  let ?g2 = "emit [CreateDispatchTask] g2"
  have tr: "filter file_event tr = filter file_event (events g)"
    using bind_agents_no_file [of "agents g" "events g"] ok(1) by simp
  have g2: "filter file_event (events g2) = filter file_event (events g)"
    using bind_messager_no_file [of ?g1] ok(2) tr by simp
  have k: "enable_avro ?g2" "agents ?g2 = a0 # others"
    using bind_messager_keeps [OF ok(2)] assms(1,2) by (simp_all add: emit_def)
  have "fst (create_avro_files ?g2) = Inr ()" using ok(3) by simp
  from create_avro_files_events [OF k this] ok(3)
  obtain profiles where p: "length profiles = length (agents ?g2)"
    "events g3 = events ?g2 @
           (if institution a0 then []
            else [OpenFile ''profile'' WB, AvroWriter ''profile'' PROFILE_SCHEMA profiles False]) @
           [OpenFile ''dialog'' WB, AvroWriter ''dialog'' DIALOG_SCHEMA [] False,
            OpenFile ''status'' WB,
            AvroWriter ''status''
              (if institution a0 then INSTITUTION_STATUS_SCHEMA else STATUS_SCHEMA) [] False,
            OpenFile ''survey'' WB, AvroWriter ''survey'' SURVEY_SCHEMA [] False]"
    by auto
  have "length profiles = length (agents g)" using p(1) k(2) assms(2) by simp
  moreover have "filter file_event (events (snd (init_agents g))) =
           filter file_event (events g) @
           (if institution a0 then []
            else [OpenFile ''profile'' WB, AvroWriter ''profile'' PROFILE_SCHEMA profiles False]) @
           [OpenFile ''dialog'' WB, AvroWriter ''dialog'' DIALOG_SCHEMA [] False,
            OpenFile ''status'' WB,
            AvroWriter ''status''
              (if institution a0 then INSTITUTION_STATUS_SCHEMA else STATUS_SCHEMA) [] False,
            OpenFile ''survey'' WB, AvroWriter ''survey'' SURVEY_SCHEMA [] False]"
    using ok(4) p(2) g2 by (simp add: emit_def)
  ultimately show ?thesis by blast
qed (use assms in simp_all)

lemma save_status_schema:
  assumes "enable_avro g" and "agents g = a0 # others" and "fst (save_status g) = Inr ()"
  shows "\<exists>recs. length recs = length (agents g) \<and>
           events (snd (save_status g)) =
           events g @ [OpenFile ''status'' AB,
                       AvroWriter ''status''
                         (if institution a0 then INSTITUTION_STATUS_SCHEMA else STATUS_SCHEMA)
                         recs True]"
proof (cases "institution a0")
  case True
  show ?thesis
  proof (cases "status_records (institution_status g) (agents g) []")
    case (Inl e)
    then show ?thesis using assms True by (simp add: save_status_def)
  next
    case (Inr recs)
    then have "length recs = length (agents g)"
      using status_records_length [of "institution_status g" "agents g" "[]" recs] by simp
    then show ?thesis using assms(1,2) True Inr by (simp add: save_status_def emit_def)
  qed
next
  case False
  show ?thesis
  proof (cases "status_records (citizen_status g) (agents g) []")
    case (Inl e)
    then show ?thesis using assms False by (simp add: save_status_def)
  next
    case (Inr recs)
    then have "length recs = length (agents g)"
      using status_records_length [of "citizen_status g" "agents g" "[]" recs] by simp
    then show ?thesis using assms(1,2) False Inr by (simp add: save_status_def emit_def)
  qed
qed

text \<open>
  C10. For a group with snapshots enabled whose first agent is \<open>a0\<close>: replacing the
  variants of the agents after the first by any others changes neither the outcome nor
  the trace of \<^verbatim>\<open>init_agents\<close> and of \<^verbatim>\<open>save_status\<close>. When \<^verbatim>\<open>init_agents\<close> has
  returned, the snapshot files it wrote are the profile file, with one profile per agent,
  exactly when \<open>a0\<close> is not an institution, then the dialog file, the status file under
  the schema of the variant of \<open>a0\<close>, and the survey file. When \<^verbatim>\<open>save_status\<close> has
  returned, it appended one batch, of one record per agent, under the schema of the variant
  of \<open>a0\<close>.
\<close>

theorem variant_decided_by_first_agent:
  assumes "enable_avro g" and "agents g = a0 # others"
    and "list_all2 same_but_variant others others'"
  shows "fst (init_agents (g\<lparr>agents := a0 # others'\<rparr>)) = fst (init_agents g) \<and>
         events (snd (init_agents (g\<lparr>agents := a0 # others'\<rparr>))) = events (snd (init_agents g)) \<and>
         fst (save_status (g\<lparr>agents := a0 # others'\<rparr>)) = fst (save_status g) \<and>
         events (snd (save_status (g\<lparr>agents := a0 # others'\<rparr>))) = events (snd (save_status g)) \<and>
         (fst (init_agents g) = Inr () \<longrightarrow>
            (\<exists>profiles. length profiles = length (agents g) \<and>
               filter file_event (events (snd (init_agents g))) =
               filter file_event (events g) @
               (if institution a0 then []
                else [OpenFile ''profile'' WB, AvroWriter ''profile'' PROFILE_SCHEMA profiles False]) @
               [OpenFile ''dialog'' WB, AvroWriter ''dialog'' DIALOG_SCHEMA [] False,
                OpenFile ''status'' WB,
                AvroWriter ''status''
                  (if institution a0 then INSTITUTION_STATUS_SCHEMA else STATUS_SCHEMA) [] False,
                OpenFile ''survey'' WB, AvroWriter ''survey'' SURVEY_SCHEMA [] False])) \<and>
         (fst (save_status g) = Inr () \<longrightarrow>
            (\<exists>recs. length recs = length (agents g) \<and>
               events (snd (save_status g)) =
               events g @ [OpenFile ''status'' AB,
                           AvroWriter ''status''
                             (if institution a0 then INSTITUTION_STATUS_SCHEMA else STATUS_SCHEMA)
                             recs True]))"
proof -
  have "same_but_variant a0 a0" by (simp add: same_but_variant_def)
  then have v: "variant_blind g (g\<lparr>agents := a0 # others'\<rparr>)"
    using assms(2,3) by (simp add: variant_blind_def)
  have "events (snd (save_status (g\<lparr>agents := a0 # others'\<rparr>))) = events (snd (save_status g))"
    using save_status_blind [OF v] by (simp add: variant_blind_def)
  then show ?thesis
    using init_agents_blind [OF v] save_status_blind [OF v]
      init_agents_file_events [OF assms(1,2)] save_status_schema [OF assms(1,2)]
    by simp
qed

theorem variant_decided_by_first_agent_witness:
  "enable_avro group_AB \<and>
   institution (citizen_B\<lparr>institution := True\<rparr>) \<and>
   fst (init_agents group_AB_mixed) = Inr () \<and>
   events (snd (init_agents group_AB_mixed)) = events (snd (init_agents group_AB)) \<and>
   fst (save_status group_AB_mixed) = Inr () \<and>
   events (snd (save_status group_AB_mixed)) = events (snd (save_status group_AB))"
proof -
  have a: "enable_avro group_AB" "agents group_AB = citizen_A # [citizen_B]"
    by (simp_all add: group_AB_def group_E_def)
  have l: "list_all2 same_but_variant [citizen_B] [citizen_B\<lparr>institution := True\<rparr>]"
    by (simp add: same_but_variant_def)
  have m: "group_AB\<lparr>agents := citizen_A # [citizen_B\<lparr>institution := True\<rparr>]\<rparr> = group_AB_mixed"
    by (simp add: group_AB_def group_AB_mixed_def)
  have i: "fst (init_agents group_AB) = Inr ()"
    by (simp add: group_AB_def citizen_B_def example_defs init_defs)
  have s: "fst (save_status group_AB) = Inr ()"
    by (simp add: group_AB_def citizen_B_def example_defs save_status_def citizen_status_def
          memory_get_def status_parent_id_def bind_err_def)
  show ?thesis
    using variant_decided_by_first_agent [OF a l] a(1) i s unfolding m by simp
qed

subsection \<open>The initialization is guarded by step only\<close>

lemma bind_agents_events:
  "fst (bind_agents as tr) = Inr () \<Longrightarrow>
   snd (bind_agents as tr) = tr @ map (\<lambda>a. BindToSimulator (uuid a)) as"
  by (induction as arbitrary: tr) (auto split: if_splits)

lemma subscribe_agents_events:
  "fst (subscribe_agents m e as tr) = Inr () \<Longrightarrow>
   snd (subscribe_agents m e as tr) =
   tr @ concat (map (\<lambda>a. SetMessager (uuid a) # map (\<lambda>t. Subscribe t (uuid a)) (agent_topics e (uuid a))) as)"
proof (induction as arbitrary: tr)
  case Nil
  then show ?case by simp
next
  case (Cons a as)
  obtain r tr' where st: "subscribe_topics m (uuid a) (agent_topics e (uuid a)) (tr @ [SetMessager (uuid a)]) = (r, tr')"
    by (cases "subscribe_topics m (uuid a) (agent_topics e (uuid a)) (tr @ [SetMessager (uuid a)])")
  from Cons.prems st have r: "r = Inr ()" by (cases r) auto
  have tr': "tr' = tr @ [SetMessager (uuid a)] @ map (\<lambda>t. Subscribe t (uuid a)) (agent_topics e (uuid a))"
    using subscribe_topics_events [of m "uuid a" "agent_topics e (uuid a)" "tr @ [SetMessager (uuid a)]"] st r
    by simp
  have ok: "fst (subscribe_agents m e as tr') = Inr ()"
    using Cons.prems st r by simp
  show ?case using Cons.IH [OF ok] st r tr' by simp
qed

lemma bind_messager_events:
  assumes "fst (bind_messager g) = Inr ()"
  shows "events (snd (bind_messager g)) =
         events g @ [Connect] @
         (if is_connected (messager g)
          then StartListening #
               concat (map (\<lambda>a. SetMessager (uuid a) #
                              map (\<lambda>t. Subscribe t (uuid a)) (agent_topics (exp_id g) (uuid a)))
                         (agents g))
          else [])"
proof (cases "subscribe_agents (messager g) (exp_id g) (agents g) (events g @ [Connect, StartListening])")
  case (Pair r tr)
  show ?thesis
  proof (cases "connect_ok (messager g) \<and> is_connected (messager g) \<and> listen_ok (messager g)")
    case True
    then have r: "r = Inr ()" and s: "events (snd (bind_messager g)) = tr"
      using assms Pair by (simp_all add: bind_messager_def Let_def emit_def)
    have "fst (subscribe_agents (messager g) (exp_id g) (agents g) (events g @ [Connect, StartListening])) = Inr ()"
      using Pair r by simp
    from subscribe_agents_events [OF this] Pair
    show ?thesis using True s by simp
  next
    case False
    then show ?thesis using assms by (auto simp: bind_messager_def Let_def emit_def split: if_splits)
  qed
qed

lemma create_avro_files_nonempty:
  assumes "enable_avro g" and "fst (create_avro_files g) = Inr ()"
  shows "agents g \<noteq> []"
  using assms by (auto simp: create_avro_files_def write_profile_def)

lemma init_agents_events:
  assumes "fst (init_agents g) = Inr ()"
  shows "\<exists>files. events (snd (init_agents g)) =
           events g @ map (\<lambda>a. BindToSimulator (uuid a)) (agents g) @ [Connect] @
           (if is_connected (messager g)
            then StartListening #
                 concat (map (\<lambda>a.
                   [SetMessager (uuid a),
                    Subscribe (''exps/'' @ exp_id g @ ''/agents/'' @ uuid a @ ''/agent-chat'') (uuid a),
                    Subscribe (''exps/'' @ exp_id g @ ''/agents/'' @ uuid a @ ''/user-chat'') (uuid a),
                    Subscribe (''exps/'' @ exp_id g @ ''/agents/'' @ uuid a @ ''/user-survey'') (uuid a),
                    Subscribe (''exps/'' @ exp_id g @ ''/agents/'' @ uuid a @ ''/gather'') (uuid a)])
                   (agents g))
            else []) @
           [CreateDispatchTask] @ files \<and>
           (if enable_avro g
            then \<exists>a0 others profiles.
                   agents g = a0 # others \<and> length profiles = length (agents g) \<and>
                   files =
                     (if institution a0 then []
                      else [OpenFile ''profile'' WB,
                            AvroWriter ''profile'' PROFILE_SCHEMA profiles False]) @
                     [OpenFile ''dialog'' WB, AvroWriter ''dialog'' DIALOG_SCHEMA [] False,
                      OpenFile ''status'' WB,
                      AvroWriter ''status''
                        (if institution a0 then INSTITUTION_STATUS_SCHEMA else STATUS_SCHEMA) [] False,
                      OpenFile ''survey'' WB, AvroWriter ''survey'' SURVEY_SCHEMA [] False]
            else files = [])"
proof (cases g rule: init_agents_cases)
  case (ok tr g2 g3)
  let ?g1 = "g\<lparr>events := tr, id2agent := build_id2agent (agents g)\<rparr>"
  let ?g2 = "emit [CreateDispatchTask] g2"
  let ?subs = "if is_connected (messager g)
            then StartListening #
                 concat (map (\<lambda>a.
                   [SetMessager (uuid a),
                    Subscribe (''exps/'' @ exp_id g @ ''/agents/'' @ uuid a @ ''/agent-chat'') (uuid a),
                    Subscribe (''exps/'' @ exp_id g @ ''/agents/'' @ uuid a @ ''/user-chat'') (uuid a),
                    Subscribe (''exps/'' @ exp_id g @ ''/agents/'' @ uuid a @ ''/user-survey'') (uuid a),
                    Subscribe (''exps/'' @ exp_id g @ ''/agents/'' @ uuid a @ ''/gather'') (uuid a)])
                   (agents g))
            else []"
  have tr: "tr = events g @ map (\<lambda>a. BindToSimulator (uuid a)) (agents g)"
    using bind_agents_events [of "agents g" "events g"] ok(1) by simp
  have "fst (bind_messager ?g1) = Inr ()" using ok(2) by simp
  from bind_messager_events [OF this] ok(2)
  have g2: "events g2 = tr @ [Connect] @ ?subs"
    by (simp add: agent_topics_def)
  have k: "enable_avro ?g2 = enable_avro g" "agents ?g2 = agents g"
    using bind_messager_keeps [OF ok(2)] by (simp_all add: emit_def)
  have e2: "events ?g2 = events g @ map (\<lambda>a. BindToSimulator (uuid a)) (agents g) @ [Connect] @ ?subs @ [CreateDispatchTask]"
    using g2 tr by (simp add: emit_def)
  have c: "fst (create_avro_files ?g2) = Inr ()" using ok(3) by simp
  show ?thesis
  proof (cases "enable_avro g")
    case False
    then have "events g3 = events ?g2"
      using ok(3) k(1) by (simp add: create_avro_files_def)
    then show ?thesis using ok(4) e2 False by simp
  next
    case True
    then have en: "enable_avro ?g2" using k(1) by simp
    obtain a0 others where a: "agents g = a0 # others"
      using create_avro_files_nonempty [OF en c] k(2) by (cases "agents g") auto
    then have a2: "agents ?g2 = a0 # others" using k(2) by simp
    from create_avro_files_events [OF en a2 c] ok(3)
    obtain profiles where p: "length profiles = length (agents ?g2)"
      "events g3 = events ?g2 @
           (if institution a0 then []
            else [OpenFile ''profile'' WB, AvroWriter ''profile'' PROFILE_SCHEMA profiles False]) @
           [OpenFile ''dialog'' WB, AvroWriter ''dialog'' DIALOG_SCHEMA [] False,
            OpenFile ''status'' WB,
            AvroWriter ''status''
              (if institution a0 then INSTITUTION_STATUS_SCHEMA else STATUS_SCHEMA) [] False,
            OpenFile ''survey'' WB, AvroWriter ''survey'' SURVEY_SCHEMA [] False]"
      by auto
    let ?files = "(if institution a0 then []
            else [OpenFile ''profile'' WB, AvroWriter ''profile'' PROFILE_SCHEMA profiles False]) @
           [OpenFile ''dialog'' WB, AvroWriter ''dialog'' DIALOG_SCHEMA [] False,
            OpenFile ''status'' WB,
            AvroWriter ''status''
              (if institution a0 then INSTITUTION_STATUS_SCHEMA else STATUS_SCHEMA) [] False,
            OpenFile ''survey'' WB, AvroWriter ''survey'' SURVEY_SCHEMA [] False]"
    have e3: "events (snd (init_agents g)) =
           events g @ map (\<lambda>a. BindToSimulator (uuid a)) (agents g) @ [Connect] @ ?subs @
           [CreateDispatchTask] @ ?files"
      using ok(4) p(2) e2 by simp
    have "\<exists>a0' others' profiles'.
            agents g = a0' # others' \<and> length profiles' = length (agents g) \<and>
            ?files =
              (if institution a0' then []
               else [OpenFile ''profile'' WB,
                     AvroWriter ''profile'' PROFILE_SCHEMA profiles' False]) @
              [OpenFile ''dialog'' WB, AvroWriter ''dialog'' DIALOG_SCHEMA [] False,
               OpenFile ''status'' WB,
               AvroWriter ''status''
                 (if institution a0' then INSTITUTION_STATUS_SCHEMA else STATUS_SCHEMA) [] False,
               OpenFile ''survey'' WB, AvroWriter ''survey'' SURVEY_SCHEMA [] False]"
      using a p(1) k(2) by (intro exI [of _ a0] exI [of _ others] exI [of _ profiles]) simp
    then show ?thesis using e3 True by (intro exI [of _ ?files]) simp
  qed
qed (use assms in simp_all)

lemma step_calls_no_init_event:
  "initialized g \<Longrightarrow>
   initialized (step_calls n g) \<and>
   filter init_event (events (step_calls n g)) = filter init_event (events g)"
proof (induction n arbitrary: g)
  case 0
  then show ?case by simp
next
  case (Suc n)
  have g1: "initialized (snd (step g))"
    "filter init_event (events (snd (step g))) = filter init_event (events g)"
    using step_keeps_initialized [OF Suc.prems] step_no_init_event [OF Suc.prems] by simp_all
  show ?case using Suc.IH [OF g1(1)] g1(2) by simp
qed

text \<open>
  C1, as the code has it. \<^verbatim>\<open>init_agents\<close> does not look at the flag: whenever a call
  of it returns, on an initialized group as on a fresh one, it has added to the trace the
  binding of every agent, the connection, when the messager reports itself connected the
  listening mode and the four subscriptions of every agent, the launch of a dispatch task,
  and when snapshots are enabled the opening for writing of the snapshot files. The guard
  is in \<^verbatim>\<open>step()\<close>: the call of \<^verbatim>\<open>init_agents\<close> that returned has marked the group
  initialized, and any number of calls of \<^verbatim>\<open>step()\<close> after it, returning or raising,
  leaves the group initialized and adds no event of the initialization to the trace.
\<close>

theorem step_initializes_once:
  assumes "fst (init_agents g) = Inr ()"
  shows "(\<exists>files. events (snd (init_agents g)) =
           events g @ map (\<lambda>a. BindToSimulator (uuid a)) (agents g) @ [Connect] @
           (if is_connected (messager g)
            then StartListening #
                 concat (map (\<lambda>a.
                   [SetMessager (uuid a),
                    Subscribe (''exps/'' @ exp_id g @ ''/agents/'' @ uuid a @ ''/agent-chat'') (uuid a),
                    Subscribe (''exps/'' @ exp_id g @ ''/agents/'' @ uuid a @ ''/user-chat'') (uuid a),
                    Subscribe (''exps/'' @ exp_id g @ ''/agents/'' @ uuid a @ ''/user-survey'') (uuid a),
                    Subscribe (''exps/'' @ exp_id g @ ''/agents/'' @ uuid a @ ''/gather'') (uuid a)])
                   (agents g))
            else []) @
           [CreateDispatchTask] @ files \<and>
           (if enable_avro g
            then \<exists>a0 others profiles.
                   agents g = a0 # others \<and> length profiles = length (agents g) \<and>
                   files =
                     (if institution a0 then []
                      else [OpenFile ''profile'' WB,
                            AvroWriter ''profile'' PROFILE_SCHEMA profiles False]) @
                     [OpenFile ''dialog'' WB, AvroWriter ''dialog'' DIALOG_SCHEMA [] False,
                      OpenFile ''status'' WB,
                      AvroWriter ''status''
                        (if institution a0 then INSTITUTION_STATUS_SCHEMA else STATUS_SCHEMA) [] False,
                      OpenFile ''survey'' WB, AvroWriter ''survey'' SURVEY_SCHEMA [] False]
            else files = [])) \<and>
         initialized (snd (init_agents g)) \<and>
         initialized (step_calls n (snd (init_agents g))) \<and>
         filter init_event (events (step_calls n (snd (init_agents g)))) =
         filter init_event (events (snd (init_agents g)))"
  using init_agents_events [OF assms] init_agents_returned [OF assms]
    step_calls_no_init_event [of "snd (init_agents g)" n]
  by simp

theorem step_initializes_once_witness:
  "initialized (snd (init_agents group_E)) \<and>
   fst (init_agents (snd (init_agents group_E))) = Inr () \<and>
   length (filter init_event
     (events (step_calls 2 (snd (init_agents (snd (init_agents group_E))))))) = 34"
proof -
  have ok: "fst (init_agents (snd (init_agents group_E))) = Inr ()"
    "initialized (snd (init_agents group_E))"
    by (simp_all add: example_defs init_defs)
  have "length (filter init_event (events (snd (init_agents (snd (init_agents group_E)))))) = 34"
    by (simp add: example_defs init_defs)
  then show ?thesis
    using step_initializes_once [OF ok(1), of 2] ok by simp
qed
text \<open>
  C1 as stated fails: a second call of \<^verbatim>\<open>init_agents\<close> on the initialized group of the
  agent A returns after subscribing the four topics again, launching a second dispatch
  task and opening the status file for writing a second time.
\<close>

theorem init_agents_twice_counterexample:
  "fst (init_agents group_E) = Inr () \<and>
   initialized (snd (init_agents group_E)) \<and>
   fst (init_agents (snd (init_agents group_E))) = Inr () \<and>
   length (filter is_subscribe (events (snd (init_agents group_E)))) = 4 \<and>
   length (filter is_subscribe (events (snd (init_agents (snd (init_agents group_E)))))) = 8 \<and>
   length (filter (\<lambda>e. e = CreateDispatchTask) (events (snd (init_agents group_E)))) = 1 \<and>
   length (filter (\<lambda>e. e = CreateDispatchTask) (events (snd (init_agents (snd (init_agents group_E)))))) = 2 \<and>
   length (filter (\<lambda>e. e = OpenFile ''status'' WB) (events (snd (init_agents (snd (init_agents group_E)))))) = 2"
  by (simp add: example_defs init_defs)

subsection \<open>Topics and handlers\<close>

lemma dropWhile_all_sep:
  "set xs \<subseteq> {c} \<Longrightarrow> dropWhile (\<lambda>x. x = c) (xs @ ys) = dropWhile (\<lambda>x. x = c) ys"
  by (induction xs) auto

lemma dropWhile_no_sep:
  "s \<noteq> [] \<Longrightarrow> hd s \<noteq> c \<Longrightarrow> dropWhile (\<lambda>x. x = c) (s @ ys) = s @ ys"
  by (cases s) auto

lemma strip_slashes:
  assumes "set lead \<subseteq> {c}" and "set trail \<subseteq> {c}"
    and "s \<noteq> []" and "hd s \<noteq> c" and "last s \<noteq> c"
  shows "strip c (lead @ s @ trail) = s"
proof -
  have a: "dropWhile (\<lambda>x. x = c) (lead @ s @ trail) = s @ trail"
    using dropWhile_all_sep [OF assms(1)] dropWhile_no_sep [OF assms(3,4)] by simp
  have r: "rev s \<noteq> []" "hd (rev s) \<noteq> c" "set (rev trail) \<subseteq> {c}"
    using assms(2,3,5) by (simp_all add: hd_rev)
  have "dropWhile (\<lambda>x. x = c) (rev trail @ rev s) = dropWhile (\<lambda>x. x = c) (rev s)"
    by (rule dropWhile_all_sep [OF r(3)])
  also have "\<dots> = rev s"
    using dropWhile_no_sep [OF r(1,2), of "[]"] by simp
  finally show ?thesis using a by (simp add: strip_def)
qed

lemma split_no_sep: "c \<notin> set w \<Longrightarrow> split c w = [w]"
  by (induction w) auto

lemma split_sep: "c \<notin> set w \<Longrightarrow> split c (w @ c # rest) = w # split c rest"
  by (induction w) auto

lemma topic_components:
  assumes "set lead \<subseteq> {CHR ''/''}" and "set trail \<subseteq> {CHR ''/''}"
    and "CHR ''/'' \<notin> set x1 \<union> set x2 \<union> set x3 \<union> set a \<union> set k"
    and "x1 \<noteq> []" and "k \<noteq> []"
  shows "split CHR ''/'' (strip CHR ''/''
           (lead @ x1 @ ''/'' @ x2 @ ''/'' @ x3 @ ''/'' @ a @ ''/'' @ k @ trail)) =
         [x1, x2, x3, a, k]"
proof -
  let ?s = "x1 @ ''/'' @ x2 @ ''/'' @ x3 @ ''/'' @ a @ ''/'' @ k"
  have h: "?s \<noteq> []" "hd ?s \<noteq> CHR ''/''" "last ?s \<noteq> CHR ''/''"
    using assms(3,4,5) by (auto simp: hd_append dest: hd_in_set last_in_set)
  have "strip CHR ''/'' (lead @ ?s @ trail) = ?s"
    by (rule strip_slashes [OF assms(1,2) h])
  moreover have "split CHR ''/'' ?s = [x1, x2, x3, a, k]"
    using assms(3) by (simp add: split_sep split_no_sep)
  ultimately show ?thesis by simp
qed

lemma message_dispatch_reached:
  assumes "dispatch_messages loads g before tr = (Inr (), tr1)"
  shows "message_dispatch loads g ((before @ message # rest) # fetched) tr =
         (case dispatch_message loads g message tr1 of
            (Inl e, t) \<Rightarrow> (Raised e, t)
          | (Inr _, t) \<Rightarrow>
              (case dispatch_messages loads g rest t of
                 (Inl e, t') \<Rightarrow> (Raised e, t')
               | (Inr _, t') \<Rightarrow> message_dispatch loads g fetched (t' @ [Sleep])))"
  using assms
  by (simp add: dispatch_messages_append split: prod.splits sum.splits)

lemma dispatch_message_undecodable:
  "decode_payload loads (payload message) = Inl e \<Longrightarrow>
   dispatch_message loads g message tr = (Inl e, tr)"
  by (simp add: dispatch_message_def)

text \<open>
  C6, as the code has it. Take a message fetched in a cycle that the loop reaches (the
  messages fetched before it in the cycle were dispatched without an exception) and whose
  topic, between slashes at its ends, is five components separated by slashes, the last
  two an agent id and a message kind. When its payload decodes to \<open>p\<close> (a byte payload
  through the decoder, any other payload as it is), the id is a key of \<^verbatim>\<open>id2agent\<close>
  and the kind is one of the four, the loop calls the handler of that kind, once, on the
  agent the mapping holds for the id, with \<open>p\<close>, and goes on with the rest of the cycle
  and the later cycles when the handler returns. When the payload decodes and the id is
  not a key, the loop calls nothing, raises nothing and goes on with the rest. When the
  payload is bytes that do not decode, the exception of the decoder leaves the loop before
  the topic is looked at, for a known and for an unknown agent alike.
\<close>

theorem dispatch_to_handler:
  assumes "topic message =
             lead @ x1 @ ''/'' @ x2 @ ''/'' @ x3 @ ''/'' @ agent_uuid @ ''/'' @ topic_type @ trail"
    and "set lead \<subseteq> {CHR ''/''}" and "set trail \<subseteq> {CHR ''/''}"
    and "CHR ''/'' \<notin> set x1 \<union> set x2 \<union> set x3 \<union> set agent_uuid \<union> set topic_type"
    and "x1 \<noteq> []" and "topic_type \<noteq> []"
    and "dispatch_messages loads g before tr = (Inr (), tr1)"
  shows "((payload message = Bytes b \<and> loads b = Inr p \<or> payload message = Structured p) \<and>
          id2agent g agent_uuid = Some agent \<and>
          (topic_type, h) \<in> {(''agent-chat'', AgentChat), (''user-chat'', UserChat),
                              (''user-survey'', UserSurvey), (''gather'', Gather)} \<longrightarrow>
            message_dispatch loads g ((before @ message # rest) # fetched) tr =
            (if handler_ok agent h
             then (case dispatch_messages loads g rest (tr1 @ [Handle h (uuid agent) p]) of
                     (Inl e, t) \<Rightarrow> (Raised e, t)
                   | (Inr _, t) \<Rightarrow> message_dispatch loads g fetched (t @ [Sleep]))
             else (Raised (HandlerFailed (uuid agent)), tr1 @ [Handle h (uuid agent) p]))) \<and>
         ((payload message = Bytes b \<and> loads b = Inr p \<or> payload message = Structured p) \<and>
          id2agent g agent_uuid = None \<longrightarrow>
            message_dispatch loads g ((before @ message # rest) # fetched) tr =
            (case dispatch_messages loads g rest tr1 of
               (Inl e, t) \<Rightarrow> (Raised e, t)
             | (Inr _, t) \<Rightarrow> message_dispatch loads g fetched (t @ [Sleep]))) \<and>
         (payload message = Bytes b \<and> loads b = Inl err \<longrightarrow>
            message_dispatch loads g ((before @ message # rest) # fetched) tr = (Raised err, tr1))"
proof -
  have t: "split CHR ''/'' (strip CHR ''/'' (topic message)) = [x1, x2, x3, agent_uuid, topic_type]"
    unfolding assms(1) by (rule topic_components [OF assms(2-6)])
  note loop = message_dispatch_reached [OF assms(7), of message rest fetched]
  have known: "message_dispatch loads g ((before @ message # rest) # fetched) tr =
            (if handler_ok agent h
             then (case dispatch_messages loads g rest (tr1 @ [Handle h (uuid agent) p]) of
                     (Inl e, t) \<Rightarrow> (Raised e, t)
                   | (Inr _, t) \<Rightarrow> message_dispatch loads g fetched (t @ [Sleep]))
             else (Raised (HandlerFailed (uuid agent)), tr1 @ [Handle h (uuid agent) p]))"
    if d: "payload message = Bytes b \<and> loads b = Inr p \<or> payload message = Structured p"
      and a: "id2agent g agent_uuid = Some agent"
      and k: "(topic_type, h) \<in> {(''agent-chat'', AgentChat), (''user-chat'', UserChat),
                              (''user-survey'', UserSurvey), (''gather'', Gather)}"
  proof -
    have d': "decode_payload loads (payload message) = Inr p"
      using d by (auto simp: decode_payload_def)
    have "handler_of topic_type = Some h" using k by (auto simp: handler_of_def)
    from dispatch_message_known [OF d' t a this, of tr1] show ?thesis
      unfolding loop by simp
  qed
  have unknown: "message_dispatch loads g ((before @ message # rest) # fetched) tr =
            (case dispatch_messages loads g rest tr1 of
               (Inl e, t) \<Rightarrow> (Raised e, t)
             | (Inr _, t) \<Rightarrow> message_dispatch loads g fetched (t @ [Sleep]))"
    if d: "payload message = Bytes b \<and> loads b = Inr p \<or> payload message = Structured p"
      and a: "id2agent g agent_uuid = None"
  proof -
    have d': "decode_payload loads (payload message) = Inr p"
      using d by (auto simp: decode_payload_def)
    from dispatch_message_unknown [OF d' t a, of tr1] show ?thesis
      unfolding loop by simp
  qed
  have garbled: "message_dispatch loads g ((before @ message # rest) # fetched) tr = (Raised err, tr1)"
    if d: "payload message = Bytes b \<and> loads b = Inl err"
  proof -
    have "decode_payload loads (payload message) = Inl err"
      using d by (simp add: decode_payload_def)
    from dispatch_message_undecodable [OF this, of g tr1] show ?thesis
      unfolding loop by simp
  qed
  show ?thesis using known unknown garbled by blast
qed

theorem dispatch_to_handler_witness:
  "dispatch_messages loads_example group_ready [chat_B] [] = (Inr (), []) \<and>
   message_dispatch loads_example group_ready [[chat_B, chat_A], []] [] =
     (Running, [Handle AgentChat ''A'' (VDict []), Sleep, Sleep])"
proof -
  have t: "topic chat_A = [] @ ''exps'' @ ''/'' @ ''E'' @ ''/'' @ ''agents'' @ ''/'' @ ''A'' @ ''/'' @ ''agent-chat'' @ []"
    by (simp add: chat_A_def)
  have s: "set [] \<subseteq> {CHR ''/''}"
    "CHR ''/'' \<notin> set ''exps'' \<union> set ''E'' \<union> set ''agents'' \<union> set ''A'' \<union> set ''agent-chat''"
    "''exps'' \<noteq> []" "''agent-chat'' \<noteq> []"
    by simp_all
  have b: "dispatch_messages loads_example group_ready [chat_B] [] = (Inr (), [])"
    by (simp add: dispatch_message_def decode_payload_def strip_def loads_example_def chat_B_def
          group_ready_def example_defs)
  have p: "payload chat_A = Bytes ''{}'' \<and> loads_example ''{}'' = Inr (VDict []) \<or>
           payload chat_A = Structured (VDict [])"
    by (simp add: chat_A_def loads_example_def)
  have a: "id2agent group_ready ''A'' = Some citizen_A" "handler_ok citizen_A AgentChat"
    "uuid citizen_A = ''A''"
    by (simp_all add: group_ready_def example_defs)
  show ?thesis
    using dispatch_to_handler [where loads = loads_example and b = "''{}''" and p = "VDict []"
        and agent = citizen_A and h = AgentChat and rest = "[]" and fetched = "[[]]",
        OF t s(1) s(1) s(2) s(3) s(4) b] p a b
    by simp
qed

text \<open>
  C6 as stated fails: a message for the agent B, which the group does not own, whose
  bytes are not JSON ends the loop with the exception of the decoder; the message for the
  agent A fetched with it, and the one of the next cycle, are never handled.
\<close>

theorem undecodable_payload_counterexample:
  "id2agent group_ready ''B'' = None \<and>
   id2agent group_ready ''A'' = Some citizen_A \<and>
   message_dispatch loads_example group_ready [[garbled_B, chat_A], [chat_A]] [] =
     (Raised JSONDecodeError, [])"
  by (simp add: dispatch_message_def decode_payload_def loads_example_def garbled_B_def
        group_ready_def example_defs)

subsection \<open>The sentinel of the status records\<close>

text \<open>
  C8, as the code has it. In a group whose first agent is not an institution, with
  snapshots enabled: an agent whose position is a dict that holds \<^verbatim>\<open>longlat_position\<close>
  with longitude and latitude and neither \<^verbatim>\<open>aoi_position\<close> nor \<^verbatim>\<open>lane_position\<close>,
  and whose needs and current step hold the fields read, gets a status record with
  \<^verbatim>\<open>parent_id\<close> -1, and nothing is raised for it. When the records of the other agents
  can be built as well, \<^verbatim>\<open>save_status\<close> returns after one append of the records of all
  agents, this one among them.
\<close>

theorem sentinel_parent_id:
  assumes "map_of (memory a) ''position'' = Some (VDict position)"
    and "map_of position ''aoi_position'' = None"
    and "map_of position ''lane_position'' = None"
    and "map_of position ''longlat_position'' = Some (VDict longlat)"
    and "map_of longlat ''longitude'' = Some lng"
    and "map_of longlat ''latitude'' = Some lat"
    and "map_of (memory a) ''needs'' = Some (VDict needs)"
    and "map_of needs ''hungry'' = Some hungry"
    and "map_of needs ''tired'' = Some tired"
    and "map_of needs ''safe'' = Some safe"
    and "map_of needs ''social'' = Some social"
    and "map_of (memory a) ''current_step'' = Some (VDict current_step)"
    and "map_of current_step ''intention'' = Some action"
    and "enable_avro g" and "agents g = a0 # others" and "\<not> institution a0"
    and "a \<in> set (agents g)"
    and "\<forall>b \<in> set (agents g). b \<noteq> a \<longrightarrow> (\<exists>r. citizen_status g b = Inr r)"
  shows "citizen_status g a =
         Inr [(''id'', VStr (uuid a)),
              (''day'', VInt (get_simulator_day (simulator g))),
              (''t'', VInt (get_simulator_second_from_start_of_day (simulator g))),
              (''lng'', lng), (''lat'', lat),
              (''parent_id'', VInt (- 1)),
              (''action'', action),
              (''hungry'', hungry), (''tired'', tired), (''safe'', safe), (''social'', social),
              (''created_at'', VInt (now_ms g))] \<and>
         (\<exists>recs. save_status g =
              (Inr (), emit [OpenFile ''status'' AB, AvroWriter ''status'' STATUS_SCHEMA recs True] g) \<and>
            map Inr recs = map (citizen_status g) (agents g))"
proof -
  have a: "citizen_status g a =
         Inr [(''id'', VStr (uuid a)),
              (''day'', VInt (get_simulator_day (simulator g))),
              (''t'', VInt (get_simulator_second_from_start_of_day (simulator g))),
              (''lng'', lng), (''lat'', lat),
              (''parent_id'', VInt (- 1)),
              (''action'', action),
              (''hungry'', hungry), (''tired'', tired), (''safe'', safe), (''social'', social),
              (''created_at'', VInt (now_ms g))]"
    by (rule citizen_status_sentinel [OF assms(1-13)])
  have "\<exists>r. citizen_status g b = Inr r" if "b \<in> set (agents g)" for b
  proof (cases "b = a")
    case True
    then show ?thesis using a by simp
  next
    case False
    then show ?thesis using assms(18) that by simp
  qed
  then have "\<forall>b \<in> set (agents g). \<exists>r. citizen_status g b = Inr r" by simp
  then obtain recs where recs: "status_records (citizen_status g) (agents g) [] = Inr ([] @ recs)"
    "map Inr recs = map (citizen_status g) (agents g)"
    using status_records_all [of "agents g" "citizen_status g" "[]"] by blast
  have "save_status g =
          (Inr (), emit [OpenFile ''status'' AB, AvroWriter ''status'' STATUS_SCHEMA recs True] g)"
    using recs(1) assms(14-16) by (simp add: save_status_def)
  then show ?thesis using a recs(2) by blast
qed

theorem sentinel_parent_id_witness:
  "citizen_status group_AC citizen_A =
     Inr [(''id'', VStr ''A''), (''day'', VInt 0), (''t'', VInt 0),
          (''lng'', VFloat 116), (''lat'', VFloat 40), (''parent_id'', VInt (- 1)),
          (''action'', VStr ''rest''), (''hungry'', VFloat 1), (''tired'', VFloat 1),
          (''safe'', VFloat 1), (''social'', VFloat 1), (''created_at'', VInt 0)] \<and>
   fst (save_status group_AC) = Inr () \<and>
   events (snd (save_status group_AC)) =
     [OpenFile ''status'' AB,
      AvroWriter ''status'' STATUS_SCHEMA
        [[(''id'', VStr ''A''), (''day'', VInt 0), (''t'', VInt 0),
          (''lng'', VFloat 116), (''lat'', VFloat 40), (''parent_id'', VInt (- 1)),
          (''action'', VStr ''rest''), (''hungry'', VFloat 1), (''tired'', VFloat 1),
          (''safe'', VFloat 1), (''social'', VFloat 1), (''created_at'', VInt 0)],
         [(''id'', VStr ''C''), (''day'', VInt 0), (''t'', VInt 0),
          (''lng'', VFloat 116), (''lat'', VFloat 40), (''parent_id'', VInt 500),
          (''action'', VStr ''rest''), (''hungry'', VFloat 1), (''tired'', VFloat 1),
          (''safe'', VFloat 1), (''social'', VFloat 1), (''created_at'', VInt 0)]] True]"
proof -
  have m: "map_of (memory citizen_A) ''position'' =
             Some (VDict [(''longlat_position'',
                VDict [(''longitude'', VFloat 116), (''latitude'', VFloat 40)])])"
    "map_of (memory citizen_A) ''needs'' =
       Some (VDict [(''hungry'', VFloat 1), (''tired'', VFloat 1), (''safe'', VFloat 1),
         (''social'', VFloat 1)])"
    "map_of (memory citizen_A) ''current_step'' = Some (VDict [(''intention'', VStr ''rest'')])"
    by (simp_all add: citizen_A_def)
  have p: "map_of [(''longlat_position'',
                VDict [(''longitude'', VFloat 116), (''latitude'', VFloat 40)])] ''aoi_position'' = None"
    "map_of [(''longlat_position'',
                VDict [(''longitude'', VFloat 116), (''latitude'', VFloat 40)])] ''lane_position'' = None"
    "map_of [(''longlat_position'',
                VDict [(''longitude'', VFloat 116), (''latitude'', VFloat 40)])] ''longlat_position'' =
       Some (VDict [(''longitude'', VFloat 116), (''latitude'', VFloat 40)])"
    "map_of [(''longitude'', VFloat 116), (''latitude'', VFloat 40)] ''longitude'' = Some (VFloat 116)"
    "map_of [(''longitude'', VFloat 116), (''latitude'', VFloat 40)] ''latitude'' = Some (VFloat 40)"
    by simp_all
  have n: "map_of [(''hungry'', VFloat 1), (''tired'', VFloat 1), (''safe'', VFloat 1),
         (''social'', VFloat 1)] ''hungry'' = Some (VFloat 1)"
    "map_of [(''hungry'', VFloat 1), (''tired'', VFloat 1), (''safe'', VFloat 1),
         (''social'', VFloat 1)] ''tired'' = Some (VFloat 1)"
    "map_of [(''hungry'', VFloat 1), (''tired'', VFloat 1), (''safe'', VFloat 1),
         (''social'', VFloat 1)] ''safe'' = Some (VFloat 1)"
    "map_of [(''hungry'', VFloat 1), (''tired'', VFloat 1), (''safe'', VFloat 1),
         (''social'', VFloat 1)] ''social'' = Some (VFloat 1)"
    "map_of [(''intention'', VStr ''rest'')] ''intention'' = Some (VStr ''rest'')"
    by simp_all
  have c: "citizen_status group_AC citizen_C =
     Inr [(''id'', VStr ''C''), (''day'', VInt 0), (''t'', VInt 0),
          (''lng'', VFloat 116), (''lat'', VFloat 40), (''parent_id'', VInt 500),
          (''action'', VStr ''rest''), (''hungry'', VFloat 1), (''tired'', VFloat 1),
          (''safe'', VFloat 1), (''social'', VFloat 1), (''created_at'', VInt 0)]"
    by (simp add: citizen_status_def memory_get_def status_parent_id_def bind_err_def
          citizen_C_def group_AC_def group_E_def citizen_A_def)
  have g: "enable_avro group_AC" "agents group_AC = citizen_A # [citizen_C]"
    "\<not> institution citizen_A" "citizen_A \<in> set (agents group_AC)"
    by (simp_all add: group_AC_def group_E_def citizen_A_def)
  have o: "\<forall>b \<in> set (agents group_AC). b \<noteq> citizen_A \<longrightarrow> (\<exists>r. citizen_status group_AC b = Inr r)"
    using c g(2) by simp
  have v: "uuid citizen_A = ''A''" "get_simulator_day (simulator group_AC) = 0"
    "get_simulator_second_from_start_of_day (simulator group_AC) = 0" "now_ms group_AC = 0"
    "events group_AC = []"
    by (simp_all add: group_AC_def group_E_def citizen_A_def)
  from sentinel_parent_id [OF m(1) p(1) p(2) p(3) p(4) p(5) m(2) n(1) n(2) n(3) n(4) m(3) n(5) g o]
  obtain recs where r: "citizen_status group_AC citizen_A =
     Inr [(''id'', VStr ''A''), (''day'', VInt 0), (''t'', VInt 0),
          (''lng'', VFloat 116), (''lat'', VFloat 40), (''parent_id'', VInt (- 1)),
          (''action'', VStr ''rest''), (''hungry'', VFloat 1), (''tired'', VFloat 1),
          (''safe'', VFloat 1), (''social'', VFloat 1), (''created_at'', VInt 0)]"
    "save_status group_AC =
       (Inr (), emit [OpenFile ''status'' AB, AvroWriter ''status'' STATUS_SCHEMA recs True] group_AC)"
    "map Inr recs = map (citizen_status group_AC) (agents group_AC)"
    using v by auto
  have "recs = [[(''id'', VStr ''A''), (''day'', VInt 0), (''t'', VInt 0),
          (''lng'', VFloat 116), (''lat'', VFloat 40), (''parent_id'', VInt (- 1)),
          (''action'', VStr ''rest''), (''hungry'', VFloat 1), (''tired'', VFloat 1),
          (''safe'', VFloat 1), (''social'', VFloat 1), (''created_at'', VInt 0)],
      [(''id'', VStr ''C''), (''day'', VInt 0), (''t'', VInt 0),
          (''lng'', VFloat 116), (''lat'', VFloat 40), (''parent_id'', VInt 500),
          (''action'', VStr ''rest''), (''hungry'', VFloat 1), (''tired'', VFloat 1),
          (''safe'', VFloat 1), (''social'', VFloat 1), (''created_at'', VInt 0)]]"
    using r(1,3) c g(2) by (auto simp: map_eq_Cons_conv)
  then show ?thesis using r(1,2) v(5) by (simp add: emit_def)
qed

text \<open>
  C8 as stated fails: the position of the citizen L contains neither an
  \<^verbatim>\<open>aoi_position\<close> nor a \<^verbatim>\<open>lane_position\<close>, and no \<^verbatim>\<open>longlat_position\<close> either.
  \<^verbatim>\<open>save_status\<close> raises KeyError for it before the sentinel is reached, and appends
  nothing, not even the record of the citizen A.
\<close>

theorem empty_position_counterexample:
  "memory_get citizen_L ''position'' = Inr (VDict []) \<and>
   contains ''aoi_position'' (VDict []) = Inr False \<and>
   contains ''lane_position'' (VDict []) = Inr False \<and>
   enable_avro group_AL \<and>
   fst (save_status group_AL) = Inl (KeyError ''longlat_position'') \<and>
   events (snd (save_status group_AL)) = []"
  by (simp add: save_status_def citizen_status_def memory_get_def status_parent_id_def bind_err_def
        citizen_L_def group_AL_def group_E_def citizen_A_def)

end
